theory Spec2Isabelle
  imports Complex_Main
begin

section \<open>Numbers of the program\<close>

text \<open>
  The scripts \<^verbatim>\<open>scripts/influx_metrics.py\<close> and \<^verbatim>\<open>scripts/influx_metrics_univ3.py\<close>
  compute with NumPy and pandas \<^verbatim>\<open>float64\<close> values.  A finite \<^verbatim>\<open>float64\<close> is
  idealised as the real number it stands for, and the sign of zero is not modelled.
  The three special values are modelled, since the program produces and tests them
  (\<^verbatim>\<open>np.isnan\<close>, division by zero, the mean of an empty list): \<open>NaN\<close>, \<open>PInf\<close> and
  \<open>NInf\<close>.  NumPy arithmetic never raises on them; it returns a special value (and
  prints a warning).  Two operations are modelled more closely, because a result of the
  program depends on it: the product inside \<^verbatim>\<open>compute_amount_out\<close> is rounded to
  \<^verbatim>\<open>float64\<close>, and \<^verbatim>\<open>np.power\<close> underflows to zero and overflows to infinity.  The
  sums, quotients, logarithms and \<^verbatim>\<open>np.exp\<close> of the estimator are exact: what is proved
  about them holds of the program up to rounding, and only while \<^verbatim>\<open>np.exp\<close> stays
  inside its finite range (arguments between about \<open>-745\<close> and \<open>709\<close>).
\<close>

datatype fl = Fin real | PInf | NInf | NaN

fun isnan :: "fl \<Rightarrow> bool" where
  "isnan NaN = True"
| "isnan _ = False"

fun fl_neg :: "fl \<Rightarrow> fl" where
  "fl_neg (Fin x) = Fin (- x)"
| "fl_neg PInf = NInf"
| "fl_neg NInf = PInf"
| "fl_neg NaN = NaN"

fun fl_add :: "fl \<Rightarrow> fl \<Rightarrow> fl" where
  "fl_add (Fin x) (Fin y) = Fin (x + y)"
| "fl_add NaN _ = NaN"
| "fl_add _ NaN = NaN"
| "fl_add PInf NInf = NaN"
| "fl_add NInf PInf = NaN"
| "fl_add PInf _ = PInf"
| "fl_add _ PInf = PInf"
| "fl_add NInf _ = NInf"
| "fl_add _ NInf = NInf"

definition fl_sub :: "fl \<Rightarrow> fl \<Rightarrow> fl" where
  "fl_sub a b = fl_add a (fl_neg b)"

fun fl_mul :: "fl \<Rightarrow> fl \<Rightarrow> fl" where
  "fl_mul (Fin x) (Fin y) = Fin (x * y)"
| "fl_mul NaN _ = NaN"
| "fl_mul _ NaN = NaN"
| "fl_mul PInf (Fin y) = (if 0 < y then PInf else if y < 0 then NInf else NaN)"
| "fl_mul NInf (Fin y) = (if 0 < y then NInf else if y < 0 then PInf else NaN)"
| "fl_mul (Fin x) PInf = (if 0 < x then PInf else if x < 0 then NInf else NaN)"
| "fl_mul (Fin x) NInf = (if 0 < x then NInf else if x < 0 then PInf else NaN)"
| "fl_mul PInf PInf = PInf"
| "fl_mul NInf NInf = PInf"
| "fl_mul PInf NInf = NInf"
| "fl_mul NInf PInf = NInf"

text \<open>Division of floats: a zero divisor gives an infinity, or \<open>NaN\<close> for \<open>0/0\<close>.\<close>

fun fl_div :: "fl \<Rightarrow> fl \<Rightarrow> fl" where
  "fl_div (Fin x) (Fin y) =
     (if y \<noteq> 0 then Fin (x / y)
      else if 0 < x then PInf else if x < 0 then NInf else NaN)"
| "fl_div NaN _ = NaN"
| "fl_div _ NaN = NaN"
| "fl_div (Fin x) PInf = Fin 0"
| "fl_div (Fin x) NInf = Fin 0"
| "fl_div PInf (Fin y) = (if 0 \<le> y then PInf else NInf)"
| "fl_div NInf (Fin y) = (if 0 \<le> y then NInf else PInf)"
| "fl_div PInf PInf = NaN"
| "fl_div PInf NInf = NaN"
| "fl_div NInf PInf = NaN"
| "fl_div NInf NInf = NaN"

text \<open>Comparison \<^verbatim>\<open>a > b\<close>: false whenever an operand is \<open>NaN\<close>.\<close>

fun fl_gt :: "fl \<Rightarrow> fl \<Rightarrow> bool" where
  "fl_gt (Fin x) (Fin y) = (y < x)"
| "fl_gt NaN _ = False"
| "fl_gt _ NaN = False"
| "fl_gt PInf PInf = False"
| "fl_gt PInf _ = True"
| "fl_gt _ PInf = False"
| "fl_gt NInf _ = False"
| "fl_gt _ NInf = True"


fun is_finite :: "fl \<Rightarrow> bool" where
  "is_finite (Fin x) = True"
| "is_finite _ = False"

fun fin_val :: "fl \<Rightarrow> real" where
  "fin_val (Fin x) = x"
| "fin_val _ = 0"


fun np_sqrt :: "fl \<Rightarrow> fl" where
  "np_sqrt (Fin x) = (if 0 \<le> x then Fin (sqrt x) else NaN)"
| "np_sqrt PInf = PInf"
| "np_sqrt NInf = NaN"
| "np_sqrt NaN = NaN"

fun np_log :: "fl \<Rightarrow> fl" where
  "np_log (Fin x) = (if 0 < x then Fin (ln x) else if x = 0 then NInf else NaN)"
| "np_log PInf = PInf"
| "np_log NInf = NaN"
| "np_log NaN = NaN"

fun np_exp :: "fl \<Rightarrow> fl" where
  "np_exp (Fin x) = Fin (exp x)"
| "np_exp PInf = PInf"
| "np_exp NInf = Fin 0"
| "np_exp NaN = NaN"

text \<open>Exceptions of the Python program, as values.\<close>

datatype error =
  ValueError | OverflowError | ZeroDivisionError | IndexError | KeyError | DataError

text \<open>
  Python's \<^verbatim>\<open>int(x)\<close> of a float truncates towards zero; it raises \<^verbatim>\<open>ValueError\<close> on
  \<open>NaN\<close> and \<^verbatim>\<open>OverflowError\<close> on an infinity.
\<close>

definition py_int :: "real \<Rightarrow> int" where
  "py_int x = (if 0 \<le> x then \<lfloor>x\<rfloor> else \<lceil>x\<rceil>)"

fun py_int_fl :: "fl \<Rightarrow> error + int" where
  "py_int_fl (Fin x) = Inr (py_int x)"
| "py_int_fl NaN = Inl ValueError"
| "py_int_fl PInf = Inl OverflowError"
| "py_int_fl NInf = Inl OverflowError"

section \<open>Rounding to \<^verbatim>\<open>float64\<close>\<close>

text \<open>
  A \<^verbatim>\<open>float64\<close> is \<open>m * 2 ^ e\<close> with \<open>\<bar>m\<bar> < 2 ^ 53\<close> and \<open>-1074 \<le> e \<le> 971\<close>.
  The result of an arithmetic operation is the exact result rounded to the nearest such
  number, a tie going to the even \<open>m\<close>; a result that rounds to \<open>2 ^ 1024\<close> or beyond
  is an infinity.
\<close>

definition round_half_even :: "real \<Rightarrow> int" where
  "round_half_even y =
     (let f = \<lfloor>y\<rfloor>; d = y - of_int f
      in if d < 1 / 2 then f else if 1 / 2 < d then f + 1
         else if even f then f else f + 1)"

definition f64_ulp_exp :: "real \<Rightarrow> int" where
  "f64_ulp_exp x = max (- 1074) (\<lfloor>log 2 \<bar>x\<bar>\<rfloor> - 52)"

definition f64_round :: "real \<Rightarrow> fl" where
  "f64_round x =
     (if x = 0 then Fin 0
      else
        let e = f64_ulp_exp x;
            r = of_int (round_half_even (x / 2 powr of_int e)) * 2 powr of_int e
        in if 2 ^ 1024 \<le> \<bar>r\<bar> then (if 0 < x then PInf else NInf) else Fin r)"

text \<open>The \<^verbatim>\<open>float64\<close> product \<^verbatim>\<open>a * b\<close>.\<close>

definition f64_mul :: "fl \<Rightarrow> fl \<Rightarrow> fl" where
  "f64_mul a b = (case fl_mul a b of Fin z \<Rightarrow> f64_round z | s \<Rightarrow> s)"

text \<open>
  \<^verbatim>\<open>np.power(b, x)\<close> for a base \<open>b > 0\<close>: the power, zero once it is at most half the
  smallest positive \<^verbatim>\<open>float64\<close>, an infinity once it rounds to \<open>2 ^ 1024\<close> or beyond.
\<close>

definition np_power :: "real \<Rightarrow> real \<Rightarrow> fl" where
  "np_power b x =
     (let y = b powr x
      in if y \<le> 2 powr (- 1075) then Fin 0
         else if 2 ^ 1024 - 2 ^ 970 \<le> y then PInf
         else Fin y)"

section \<open>\<^verbatim>\<open>influx_metrics.py\<close>: fixed-point decoder\<close>

definition PC_RESOLUTION :: nat where
  "PC_RESOLUTION = 112"

text \<open>
  \<^verbatim>\<open>compute_amount_out(twap_112, amount_in)\<close>: the loop writes
  \<^verbatim>\<open>int(twap_112[i] * amount_in) >> PC_RESOLUTION\<close> into element \<open>i\<close> of a float array of
  the input's length.  The product is a \<^verbatim>\<open>float64\<close> product: \<^verbatim>\<open>amount_in\<close>, a Python
  number, is first converted to \<^verbatim>\<open>float64\<close> (\<^verbatim>\<open>OverflowError\<close> for an integer too large
  for it), and the product is rounded before \<^verbatim>\<open>int\<close> truncates it.  Python's \<^verbatim>\<open>>>\<close> on
  an unbounded integer is \<open>drop_bit\<close>.  The integer that is stored comes from a
  \<^verbatim>\<open>float64\<close> by dropping low bits, so the store into the float array is exact.
\<close>

fun compute_amount_out :: "fl list \<Rightarrow> real \<Rightarrow> error + fl list" where
  "compute_amount_out [] amount_in = Inr []"
| "compute_amount_out (x # xs) amount_in =
     (if \<not> is_finite (f64_round amount_in) then Inl OverflowError
      else
        case py_int_fl (f64_mul x (f64_round amount_in)) of
          Inl e \<Rightarrow> Inl e
        | Inr k \<Rightarrow>
            (case compute_amount_out xs amount_in of
               Inl e \<Rightarrow> Inl e
             | Inr ys \<Rightarrow> Inr (Fin (of_int (drop_bit PC_RESOLUTION k)) # ys)))"

section \<open>\<^verbatim>\<open>influx_metrics.py\<close>: TWAP over a fixed number of rows\<close>

text \<open>
  A row of the \<^verbatim>\<open>priceCumulatives\<close> data frame: \<^verbatim>\<open>_time\<close> (a Unix timestamp in
  seconds), \<^verbatim>\<open>_field\<close> and \<^verbatim>\<open>_value\<close>.  The frame is a list of rows in index order.
\<close>

record price_point =
  p_time :: int
  p_field :: string
  p_value :: real

text \<open>A row of the frame \<^verbatim>\<open>get_twap\<close> returns: columns \<^verbatim>\<open>timestamp\<close>, \<^verbatim>\<open>window\<close>, \<^verbatim>\<open>twap\<close>.\<close>

record twap_sample =
  timestamp :: fl
  window :: fl
  twap :: fl

text \<open>
  \<^verbatim>\<open>.rolling(window=window).apply(f, raw=True)\<close> with an integer window: row \<open>i\<close> gets
  \<open>f\<close> of the \<open>window\<close> values that end at row \<open>i\<close>, and \<open>NaN\<close> while fewer than
  \<open>window\<close> rows are there.
\<close>

definition rolling_apply :: "nat \<Rightarrow> (real list \<Rightarrow> real) \<Rightarrow> real list \<Rightarrow> fl list" where
  "rolling_apply w f xs =
     map (\<lambda>i. if w \<le> i + 1 then Fin (f (take w (drop (i + 1 - w) xs))) else NaN)
       [0..<length xs]"

text \<open>The two lambdas of \<^verbatim>\<open>get_twap\<close>: \<^verbatim>\<open>w[-1] - w[0]\<close> and \<^verbatim>\<open>w[-1]\<close>.\<close>

definition last_minus_first :: "real list \<Rightarrow> real" where
  "last_minus_first w = last w - hd w"

text \<open>
  \<^verbatim>\<open>pd.DataFrame(data=[ts, window_times, twaps]).T\<close>: three columns; pandas fills a
  shorter column with \<open>NaN\<close>.
\<close>

definition pad :: "nat \<Rightarrow> fl list \<Rightarrow> fl list" where
  "pad n xs = xs @ replicate (n - length xs) NaN"

definition data_frame3 :: "fl list \<Rightarrow> fl list \<Rightarrow> fl list \<Rightarrow> twap_sample list" where
  "data_frame3 ts window_times twaps =
     (let n = max (length ts) (max (length window_times) (length twaps))
      in map (\<lambda>(a, b, c). \<lparr>timestamp = a, window = b, twap = c\<rparr>)
           (zip (pad n ts) (zip (pad n window_times) (pad n twaps))))"

text \<open>
  The rates \<^verbatim>\<open>dp['_value'] / dt['_time']\<close> of \<^verbatim>\<open>get_twap\<close>, one per row of the input,
  before the \<open>NaN\<close>s are filtered out.
\<close>

definition twap_rates :: "price_point list \<Rightarrow> nat \<Rightarrow> fl list" where
  "twap_rates pc w =
     (let dp = rolling_apply w last_minus_first (map p_value pc);
          dt = rolling_apply w last_minus_first (map (\<lambda>r. real_of_int (p_time r)) pc)
      in map (\<lambda>(a, b). fl_div a b) (zip dp dt))"

text \<open>
  \<^verbatim>\<open>get_twap(pc, q, p)\<close> of \<^verbatim>\<open>influx_metrics.py\<close>, with \<^verbatim>\<open>q['amount_in']\<close> and
  \<^verbatim>\<open>p['window']\<close> as arguments.  pandas rejects a negative window with
  \<^verbatim>\<open>ValueError\<close> and a frame without rows with \<^verbatim>\<open>DataError\<close>; with a window of 0 rows
  the lambda reads \<^verbatim>\<open>w[-1]\<close> of an empty window: \<^verbatim>\<open>IndexError\<close>.
\<close>

definition get_twap :: "price_point list \<Rightarrow> real \<Rightarrow> int \<Rightarrow> error + twap_sample list" where
  "get_twap pc amount_in window_p =
     (if window_p < 0 then Inl ValueError
      else if pc = [] then Inl DataError
      else if window_p = 0 then Inl IndexError
      else
        let w = nat window_p;
            dt = rolling_apply w last_minus_first (map (\<lambda>r. real_of_int (p_time r)) pc);
            twap_112 = filter (\<lambda>x. \<not> isnan x) (twap_rates pc w)
        in case compute_amount_out twap_112 amount_in of
             Inl e \<Rightarrow> Inl e
           | Inr twaps \<Rightarrow>
               let window_times = filter (\<lambda>x. \<not> isnan x) dt;
                   t = rolling_apply w last (map (\<lambda>r. real_of_int (p_time r)) pc);
                   ts = filter (\<lambda>x. \<not> isnan x) t;
                   df = data_frame3 ts window_times twaps
               in Inr (filter (\<lambda>r. fl_gt (twap r) (Fin 0)) df))"

section \<open>\<^verbatim>\<open>influx_metrics_univ3.py\<close>: TWAP over a window found per row\<close>

text \<open>
  \<^verbatim>\<open>max_rows = ((window/period)+1) * 2\<close> is a float; \<^verbatim>\<open>get_twap\<close> passes
  \<^verbatim>\<open>int(max_rows)\<close> on.  The quotient is taken exactly.
\<close>

definition max_rows :: "int \<Rightarrow> int \<Rightarrow> int" where
  "max_rows window_p period_p =
     py_int ((real_of_int window_p / real_of_int period_p + 1) * 2)"

text \<open>
  Column \<open>i\<close> of \<^verbatim>\<open>dynamic_window\<close> at a row:
  \<^verbatim>\<open>abs((_time - _time.shift(i)).total_seconds() - window)\<close>, which is \<open>NaN\<close> (here
  \<open>None\<close>) where the frame has no row \<open>i\<close> places before.
\<close>

definition lag_score :: "int list \<Rightarrow> int \<Rightarrow> nat \<Rightarrow> nat \<Rightarrow> int option" where
  "lag_score tms window_p row i =
     (if i \<le> row then Some \<bar>tms ! row - tms ! (row - i) - window_p\<bar> else None)"

text \<open>
  \<^verbatim>\<open>.idxmin(axis="columns")\<close>: the label of the first column that holds the minimum of
  the row, \<open>NaN\<close> cells skipped; \<open>NaN\<close> (here \<open>None\<close>) for a row of \<open>NaN\<close> cells only.
  The scan keeps the best column so far and replaces it on a strictly smaller score.
\<close>

fun idxmin_from :: "nat \<Rightarrow> int option list \<Rightarrow> (nat \<times> int) option \<Rightarrow> (nat \<times> int) option" where
  "idxmin_from i [] best = best"
| "idxmin_from i (None # cs) best = idxmin_from (Suc i) cs best"
| "idxmin_from i (Some s # cs) best =
     idxmin_from (Suc i) cs
       (case best of
          None \<Rightarrow> Some (i, s)
        | Some (j, m) \<Rightarrow> if s < m then Some (i, s) else Some (j, m))"

definition idxmin :: "int option list \<Rightarrow> nat option" where
  "idxmin cs = map_option fst (idxmin_from 1 cs None)"

text \<open>
  A row of the frame \<^verbatim>\<open>dynamic_window\<close> returns: its index label in the input frame,
  the input row, and the column \<^verbatim>\<open>dynamic_window\<close>.
\<close>

record lagged_row =
  lr_label :: nat
  lr_point :: price_point
  lr_lag :: nat

text \<open>
  \<^verbatim>\<open>dynamic_window(df, max_rows, window)\<close>: the score columns \<open>1..max_rows\<close>, their
  \<^verbatim>\<open>idxmin\<close> per row, then \<^verbatim>\<open>dropna\<close>, which removes every row with a \<open>NaN\<close> score, then
  the join of the \<^verbatim>\<open>idxmin\<close> column on the index labels that are left, and
  \<^verbatim>\<open>astype(int)\<close>.  The rows that \<^verbatim>\<open>dropna\<close> removes are the rows whose \<^verbatim>\<open>idxmin\<close> may
  be \<open>NaN\<close>, so the join never reads such a cell.  With no score column at all there
  is nothing to take a minimum of: \<^verbatim>\<open>ValueError\<close>.
\<close>

definition score_columns :: "price_point list \<Rightarrow> nat \<Rightarrow> int \<Rightarrow> nat \<Rightarrow> int option list" where
  "score_columns df mr window_p row =
     map (lag_score (map p_time df) window_p row) [1..<Suc mr]"

definition dynamic_window :: "price_point list \<Rightarrow> nat \<Rightarrow> int \<Rightarrow> error + lagged_row list" where
  "dynamic_window df mr window_p =
     (if mr < 1 then Inl ValueError
      else Inr (concat (map (\<lambda>row.
             let cols = score_columns df mr window_p row
             in if list_all (\<lambda>c. c \<noteq> None) cols
                then (case idxmin cols of
                        Some l \<Rightarrow> [\<lparr>lr_label = row, lr_point = df ! row, lr_lag = l\<rparr>]
                      | None \<Rightarrow> [])
                else [])
           [0..<length df])))"

text \<open>
  \<^verbatim>\<open>Series.iloc[i]\<close> with a Python integer: a negative position counts from the end,
  and a position outside the series raises \<^verbatim>\<open>IndexError\<close>.
\<close>

definition iloc :: "'a list \<Rightarrow> int \<Rightarrow> error + 'a" where
  "iloc xs i =
     (let n = int (length xs)
      in if 0 \<le> i \<and> i < n then Inr (xs ! nat i)
         else if - n \<le> i \<and> i < 0 then Inr (xs ! nat (i + n))
         else Inl IndexError)"

text \<open>
  \<^verbatim>\<open>delta_window(row, values, lookback)\<close>: \<open>loc\<close> is the position of the row in
  \<open>values\<close>, the column of the frame \<^verbatim>\<open>dynamic_window\<close> returned;
  the result is \<^verbatim>\<open>values.iloc[loc] - values.iloc[loc-lb]\<close>.
\<close>

definition delta_window :: "nat \<Rightarrow> ('a::minus) list \<Rightarrow> nat list \<Rightarrow> error + 'a" where
  "delta_window loc vals lookback =
     (let lb = lookback ! loc
      in case iloc vals (int loc - int lb) of
           Inl e \<Rightarrow> Inl e
         | Inr y \<Rightarrow> Inr (vals ! loc - y))"

text \<open>\<^verbatim>\<open>pc.apply(delta_window, values=..., lookback=..., axis=1)\<close>: row by row, the first exception ends it.\<close>

fun apply_rows :: "(nat \<Rightarrow> error + 'a) \<Rightarrow> nat list \<Rightarrow> error + 'a list" where
  "apply_rows f [] = Inr []"
| "apply_rows f (i # is) =
     (case f i of
        Inl e \<Rightarrow> Inl e
      | Inr y \<Rightarrow> (case apply_rows f is of Inl e \<Rightarrow> Inl e | Inr ys \<Rightarrow> Inr (y # ys)))"

text \<open>The parameters \<^verbatim>\<open>p['window']\<close>, \<^verbatim>\<open>p['period']\<close>, \<^verbatim>\<open>p['tolerance']\<close>.\<close>

record params =
  window_s :: int
  period_s :: int
  tolerance_s :: int

text \<open>A row of \<^verbatim>\<open>pc\<close> once the columns \<^verbatim>\<open>dp\<close> and \<^verbatim>\<open>dt\<close> are there.\<close>

record delta_row =
  dr_row :: lagged_row
  dr_dp :: real
  dr_dt :: int

text \<open>
  \<^verbatim>\<open>get_twap\<close> of \<^verbatim>\<open>influx_metrics_univ3.py\<close> up to \<^verbatim>\<open>pc.reset_index\<close>: the frame of
  \<^verbatim>\<open>dynamic_window\<close>, the columns \<^verbatim>\<open>dp\<close> and \<^verbatim>\<open>dt\<close>, and the two filters on \<^verbatim>\<open>dt\<close>.
  Applying \<^verbatim>\<open>delta_window\<close> to a frame without rows gives a frame, not a column, and
  the assignment to \<^verbatim>\<open>pc['dp']\<close> raises \<^verbatim>\<open>ValueError\<close> before the filters.
\<close>

definition filtered_rows :: "price_point list \<Rightarrow> params \<Rightarrow> error + delta_row list" where
  "filtered_rows pc p =
     (if period_s p = 0 then Inl ZeroDivisionError
      else
        let upper_limit = window_s p + tolerance_s p;
            lower_limit = window_s p - tolerance_s p
        in case dynamic_window pc (nat (max_rows (window_s p) (period_s p))) (window_s p) of
             Inl e \<Rightarrow> Inl e
           | Inr pc1 \<Rightarrow>
               if pc1 = [] then Inl ValueError
               else
                 let lookback = map lr_lag pc1;
                     locs = [0..<length pc1]
                 in (case apply_rows
                            (\<lambda>loc. delta_window loc (map (\<lambda>r. p_value (lr_point r)) pc1) lookback)
                            locs of
                       Inl e \<Rightarrow> Inl e
                     | Inr dps \<Rightarrow>
                         (case apply_rows
                                 (\<lambda>loc. delta_window loc (map (\<lambda>r. p_time (lr_point r)) pc1) lookback)
                                 locs of
                            Inl e \<Rightarrow> Inl e
                          | Inr dts \<Rightarrow>
                              let pc2 = map (\<lambda>(r, dp, dt). \<lparr>dr_row = r, dr_dp = dp, dr_dt = dt\<rparr>)
                                          (zip pc1 (zip dps dts));
                                  pc3 = filter (\<lambda>r. 0 < dr_dt r) pc2
                              in Inr (filter (\<lambda>r. dr_dt r \<le> upper_limit \<and> lower_limit \<le> dr_dt r)
                                        pc3))))"

text \<open>
  The rest of \<^verbatim>\<open>get_twap\<close>: \<^verbatim>\<open>np.power(1.0001, dp/dt)\<close> per row, the \<^verbatim>\<open>np.isnan\<close>
  filter, the inversion \<^verbatim>\<open>1/twaps\<close> decided by \<^verbatim>\<open>pc.loc[0, '_field']\<close> (a \<^verbatim>\<open>KeyError\<close>
  when no row is left), the three columns and the filter \<^verbatim>\<open>twap > 0\<close>.  Every row
  left has \<open>dt > 0\<close>, so the quotients \<open>dp / dt\<close> are finite.
\<close>

definition get_twap_univ3 :: "price_point list \<Rightarrow> params \<Rightarrow> error + twap_sample list" where
  "get_twap_univ3 pc p =
     (case filtered_rows pc p of
        Inl e \<Rightarrow> Inl e
      | Inr rows \<Rightarrow>
          (case rows of
             [] \<Rightarrow> Inl KeyError
           | r0 # _ \<Rightarrow>
               let log_p = map (\<lambda>r. dr_dp r / real_of_int (dr_dt r)) rows;
                   twap_112 = map (np_power (10001 / 10000)) log_p;
                   twaps0 = filter (\<lambda>x. \<not> isnan x) twap_112;
                   twaps = (if p_field (lr_point (dr_row r0)) = ''tick_cumulative1''
                            then map (fl_div (Fin 1)) twaps0 else twaps0);
                   window_times = filter (\<lambda>x. \<not> isnan x)
                                    (map (\<lambda>r. Fin (real_of_int (dr_dt r))) rows);
                   ts = filter (\<lambda>x. \<not> isnan x)
                          (map (\<lambda>r. Fin (real_of_int (p_time (lr_point (dr_row r))))) rows);
                   df = data_frame3 ts window_times twaps
               in Inr (filter (\<lambda>r. fl_gt (twap r) (Fin 0)) df)))"

section \<open>The standard normal distribution\<close>

text \<open>
  \<^verbatim>\<open>scipy.stats.norm.ppf\<close> is SciPy's, not the repository's: the quantile function of
  the standard normal distribution, the inverse of its cumulative distribution function.
  The distribution function is built from the power series of \<open>\<integral> exp (- t\<^sup>2 / 2)\<close> from
  \<open>0\<close> to \<open>x\<close> and normalised by the total mass of the density (the supremum of that
  integral is half of it), so that it is a distribution function by construction.
\<close>

definition gauss_coeff :: "nat \<Rightarrow> real" where
  "gauss_coeff n =
     (if even n then 0
      else (- 1) ^ ((n - 1) div 2) / (2 ^ ((n - 1) div 2) * fact ((n - 1) div 2) * real n))"

definition gauss_int :: "real \<Rightarrow> real" where
  "gauss_int x = (\<Sum>n. gauss_coeff n * x ^ n)"

definition gauss_half_mass :: real where
  "gauss_half_mass = Sup (range gauss_int)"

definition norm_cdf :: "real \<Rightarrow> real" where
  "norm_cdf x = 1 / 2 + gauss_int x / (2 * gauss_half_mass)"

definition probit :: "real \<Rightarrow> real" where
  "probit q = (THE x. norm_cdf x = q)"

text \<open>
  \<^verbatim>\<open>norm.ppf(q)\<close> on a float: the quantile inside \<open>(0, 1)\<close>, the infinities at the two
  ends, \<open>NaN\<close> elsewhere.
\<close>

fun norm_ppf :: "fl \<Rightarrow> fl" where
  "norm_ppf (Fin q) =
     (if 0 < q \<and> q < 1 then Fin (probit q)
      else if q = 0 then NInf else if q = 1 then PInf else NaN)"
| "norm_ppf _ = NaN"

section \<open>Value at risk: \<^verbatim>\<open>calc_vars\<close> and \<^verbatim>\<open>get_stat\<close>\<close>

text \<open>
  Both scripts hold the same text of \<^verbatim>\<open>calc_vars\<close> and \<^verbatim>\<open>get_stat\<close>.
  \<^verbatim>\<open>calc_vars(mu, sig_sqrd, t, n, alphas)\<close> works on the whole array \<open>alphas\<close> at once.
\<close>

definition calc_vars :: "fl \<Rightarrow> fl \<Rightarrow> int \<Rightarrow> int \<Rightarrow> fl list \<Rightarrow> fl list" where
  "calc_vars mu_v sig_sqrd t n alphas =
     (let sig = np_sqrt sig_sqrd
      in map (\<lambda>alpha.
            let q = fl_sub (Fin 1) alpha;
                pow = fl_add (fl_mul (fl_mul mu_v (Fin (real_of_int n))) (Fin (real_of_int t)))
                        (fl_mul (fl_mul sig (np_sqrt (Fin (real_of_int (n * t))))) (norm_ppf q))
            in fl_sub (np_exp pow) (Fin 1))
          alphas)"

text \<open>\<^verbatim>\<open>np.mean\<close> and \<^verbatim>\<open>np.var\<close> (population variance, \<^verbatim>\<open>ddof=0\<close>) of a list of floats.\<close>

definition fl_sum :: "fl list \<Rightarrow> fl" where
  "fl_sum xs = foldl fl_add (Fin 0) xs"

definition np_mean :: "fl list \<Rightarrow> fl" where
  "np_mean xs = fl_div (fl_sum xs) (Fin (real (length xs)))"

definition np_var :: "fl list \<Rightarrow> fl" where
  "np_var xs =
     (let m = np_mean xs
      in np_mean (map (\<lambda>x. fl_mul (fl_sub x m) (fl_sub x m)) xs))"

text \<open>
  The one-row frame \<^verbatim>\<open>get_stat\<close> returns: \<^verbatim>\<open>timestamp\<close>, \<^verbatim>\<open>mu\<close>, \<^verbatim>\<open>sigSqrd\<close> and one
  column \<^verbatim>\<open>VaR alpha={alpha} n={n}\<close> per horizon and alpha, here keyed by the pair.
\<close>

record risk_stat =
  rs_timestamp :: int
  mu :: fl
  sigSqrd :: fl
  var_cells :: "((fl \<times> int) \<times> fl) list"

definition log_returns :: "fl list \<Rightarrow> fl list" where
  "log_returns sample =
     map (\<lambda>i. np_log (fl_div (sample ! i) (sample ! (i - 1)))) [1..<length sample]"

definition get_stat :: "int \<Rightarrow> fl list \<Rightarrow> int \<Rightarrow> fl list \<Rightarrow> int list \<Rightarrow> risk_stat" where
  "get_stat ts sample t alphas ns =
     (let rs = log_returns sample;
          m = fl_div (np_mean rs) (Fin (real_of_int t));
          ss = fl_div (np_var rs) (Fin (real_of_int t))
      in \<lparr>rs_timestamp = ts, mu = m, sigSqrd = ss,
          var_cells = concat (map (\<lambda>n. zip (map (\<lambda>alpha. (alpha, n)) alphas)
                                           (calc_vars m ss t n alphas)) ns)\<rparr>)"

section \<open>The calibration as the specification words it\<close>

text \<open>
  Log-returns of a positive real sequence, their mean and their population variance
  (the squared deviations from the sample's own mean, divided by the number of returns).
\<close>

definition spec_log_returns :: "real list \<Rightarrow> real list" where
  "spec_log_returns xs = map (\<lambda>i. ln (xs ! i / xs ! (i - 1))) [1..<length xs]"

definition spec_mean :: "real list \<Rightarrow> real" where
  "spec_mean rs = sum_list rs / real (length rs)"

definition spec_pop_variance :: "real list \<Rightarrow> real" where
  "spec_pop_variance rs =
     sum_list (map (\<lambda>r. (r - spec_mean rs)\<^sup>2) rs) / real (length rs)"

section \<open>Example series\<close>

text \<open>
  Four samples two seconds apart with the values \<open>0, 1, 4, 9\<close> and \<open>window = 4\<close>
  seconds, that is \<open>k = 2\<close> periods.  The finite difference over two rows would be
  \<open>(4 - 0) / 4 = 1\<close> at row 2 and \<open>(9 - 1) / 4 = 2\<close> at row 3; the code gives no rate at
  row 2 and \<open>(9 - 0) / 6\<close> at row 3.
\<close>

definition uniform_series :: "price_point list" where
  "uniform_series =
     [\<lparr>p_time = 0, p_field = ''price0Cumulative'', p_value = 0\<rparr>,
      \<lparr>p_time = 2, p_field = ''price0Cumulative'', p_value = 1\<rparr>,
      \<lparr>p_time = 4, p_field = ''price0Cumulative'', p_value = 4\<rparr>,
      \<lparr>p_time = 6, p_field = ''price0Cumulative'', p_value = 9\<rparr>]"

text \<open>
  Series for \<^verbatim>\<open>influx_metrics_univ3.py\<close>, with \<^verbatim>\<open>window = 60\<close>, \<^verbatim>\<open>period = 60\<close> and
  \<^verbatim>\<open>tolerance = 10\<close> as \<^verbatim>\<open>get_params\<close> returns them: five and six samples 60 seconds
  apart, and three of them; seven samples 15 seconds apart; seven samples with irregular
  spacing.
\<close>

definition params_60 :: params where "params_60 = \<lparr>window_s = 60, period_s = 60, tolerance_s = 10\<rparr>"

definition series_5 :: "price_point list" where
  "series_5 = [\<lparr>p_time = 0, p_field = ''tick_cumulative0'', p_value = 0\<rparr>,
         \<lparr>p_time = 60, p_field = ''tick_cumulative0'', p_value = 10\<rparr>,
         \<lparr>p_time = 120, p_field = ''tick_cumulative0'', p_value = 20\<rparr>,
         \<lparr>p_time = 180, p_field = ''tick_cumulative0'', p_value = 30\<rparr>,
         \<lparr>p_time = 240, p_field = ''tick_cumulative0'', p_value = 40\<rparr>]"

definition series_3 :: "price_point list" where
  "series_3 = [\<lparr>p_time = 0, p_field = ''tick_cumulative0'', p_value = 0\<rparr>,
         \<lparr>p_time = 60, p_field = ''tick_cumulative0'', p_value = 10\<rparr>,
         \<lparr>p_time = 120, p_field = ''tick_cumulative0'', p_value = 20\<rparr>]"

definition series_6 :: "price_point list" where
  "series_6 = [\<lparr>p_time = 0, p_field = ''tick_cumulative0'', p_value = 0\<rparr>,
         \<lparr>p_time = 60, p_field = ''tick_cumulative0'', p_value = 10\<rparr>,
         \<lparr>p_time = 120, p_field = ''tick_cumulative0'', p_value = 20\<rparr>,
         \<lparr>p_time = 180, p_field = ''tick_cumulative0'', p_value = 30\<rparr>,
         \<lparr>p_time = 240, p_field = ''tick_cumulative0'', p_value = 40\<rparr>,
         \<lparr>p_time = 300, p_field = ''tick_cumulative0'', p_value = 50\<rparr>]"

definition series_15s :: "price_point list" where
  "series_15s = [\<lparr>p_time = 0, p_field = ''tick_cumulative0'', p_value = 0\<rparr>,
         \<lparr>p_time = 15, p_field = ''tick_cumulative0'', p_value = 10\<rparr>,
         \<lparr>p_time = 30, p_field = ''tick_cumulative0'', p_value = 20\<rparr>,
         \<lparr>p_time = 45, p_field = ''tick_cumulative0'', p_value = 30\<rparr>,
         \<lparr>p_time = 60, p_field = ''tick_cumulative0'', p_value = 40\<rparr>,
         \<lparr>p_time = 75, p_field = ''tick_cumulative0'', p_value = 50\<rparr>,
         \<lparr>p_time = 90, p_field = ''tick_cumulative0'', p_value = 60\<rparr>]"

definition series_jitter :: "price_point list" where
  "series_jitter = [\<lparr>p_time = 0, p_field = ''tick_cumulative0'', p_value = 0\<rparr>,
         \<lparr>p_time = 42, p_field = ''tick_cumulative0'', p_value = 0\<rparr>,
         \<lparr>p_time = 100, p_field = ''tick_cumulative0'', p_value = 0\<rparr>,
         \<lparr>p_time = 101, p_field = ''tick_cumulative0'', p_value = 0\<rparr>,
         \<lparr>p_time = 102, p_field = ''tick_cumulative0'', p_value = 0\<rparr>,
         \<lparr>p_time = 110, p_field = ''tick_cumulative0'', p_value = 0\<rparr>,
         \<lparr>p_time = 160, p_field = ''tick_cumulative0'', p_value = 600\<rparr>]"

text \<open>
  Six samples 60 seconds apart whose tick accumulator falls by \<open>1.2 * 10\<^sup>9\<close> per sample,
  so that \<open>dp / dt = - 2 * 10\<^sup>7\<close> and \<open>1.0001\<close> to that power is below the smallest
  positive \<^verbatim>\<open>float64\<close>.
\<close>

definition series_steep :: "price_point list" where
  "series_steep = [\<lparr>p_time = 0, p_field = ''tick_cumulative0'', p_value = 0\<rparr>,
         \<lparr>p_time = 60, p_field = ''tick_cumulative0'', p_value = - 1200000000\<rparr>,
         \<lparr>p_time = 120, p_field = ''tick_cumulative0'', p_value = - 2400000000\<rparr>,
         \<lparr>p_time = 180, p_field = ''tick_cumulative0'', p_value = - 3600000000\<rparr>,
         \<lparr>p_time = 240, p_field = ''tick_cumulative0'', p_value = - 4800000000\<rparr>,
         \<lparr>p_time = 300, p_field = ''tick_cumulative0'', p_value = - 6000000000\<rparr>]"

section \<open>Properties of the fixed-point decoder\<close>

lemma round_half_even_of_int: "round_half_even (of_int j) = j"
  by (simp add: round_half_even_def)

lemma f64_ulp_exp_le:
  assumes "x = of_int m * 2 powr of_int k" and "\<bar>m\<bar> < 2 ^ 53" and "- 1074 \<le> k" and "x \<noteq> 0"
  shows "f64_ulp_exp x \<le> k"
proof -
  have pos: "0 < \<bar>x\<bar>" using assms(4) by simp
  have "\<bar>x\<bar> = of_int \<bar>m\<bar> * 2 powr of_int k" using assms(1) by (simp add: abs_mult)
  also have "\<dots> < 2 ^ 53 * 2 powr of_int k"
  proof -
    have "real_of_int \<bar>m\<bar> < 2 ^ 53" using assms(2) by (metis of_int_less_numeral_power_cancel_iff)
    then show ?thesis by simp
  qed
  also have "\<dots> = 2 powr of_int (53 + k)"
    by (simp add: powr_add powr_realpow[symmetric])
  finally have lt: "\<bar>x\<bar> < 2 powr of_int (53 + k)" .
  have "log 2 \<bar>x\<bar> < of_int (53 + k)"
    using lt pos by (simp add: log_less_iff)
  then have "\<lfloor>log 2 \<bar>x\<bar>\<rfloor> < 53 + k" by (simp add: floor_less_iff)
  then show ?thesis using assms(3) by (simp add: f64_ulp_exp_def)
qed

text \<open>A number that is a \<^verbatim>\<open>float64\<close> is its own rounding.\<close>

lemma f64_round_exact:
  assumes "x = of_int m * 2 powr of_int k" and "\<bar>m\<bar> < 2 ^ 53" and "- 1074 \<le> k"
    and "\<bar>x\<bar> < 2 ^ 1024"
  shows "f64_round x = Fin x"
proof (cases "x = 0")
  case True
  then show ?thesis by (simp add: f64_round_def)
next
  case False
  define e where "e = f64_ulp_exp x"
  have le: "e \<le> k" unfolding e_def by (rule f64_ulp_exp_le[OF assms(1-3) False])
  then obtain d :: nat where d: "k = e + int d" by (metis zle_iff_zadd)
  have "(2::real) powr of_int k = 2 powr (real_of_int e + real d)"
    by (simp add: d)
  also have "\<dots> = 2 powr real_of_int e * 2 powr real d"
    by (rule powr_add)
  also have "(2::real) powr real d = 2 ^ d"
    by (simp add: powr_realpow)
  finally have pk: "(2::real) powr of_int k = 2 powr of_int e * 2 ^ d" .
  have x0: "x = of_int m * (2 powr of_int e * 2 ^ d)" by (subst pk[symmetric]) (rule assms(1))
  have id: "real_of_int m * (P * 2 ^ d) = of_int (m * 2 ^ d) * P" for P :: real by simp
  have x: "x = of_int (m * 2 ^ d) * 2 powr of_int e" using x0 unfolding id .
  have "x / 2 powr of_int e = of_int (m * 2 ^ d) * 2 powr of_int e / 2 powr of_int e"
    by (subst x) (rule refl)
  then have q: "x / 2 powr of_int e = of_int (m * 2 ^ d)" by simp
  have r: "of_int (round_half_even (x / 2 powr of_int e)) * 2 powr of_int e = x"
    unfolding q round_half_even_of_int by (rule x[symmetric])
  show ?thesis
    unfolding f64_round_def Let_def e_def[symmetric] r using False assms(4) by simp
qed

lemma f64_round_int_pow2:
  assumes "\<bar>m\<bar> < 2 ^ 53" and "\<bar>real_of_int m * 2 ^ k\<bar> < 2 ^ 1024"
  shows "f64_round (of_int m * 2 ^ k) = Fin (of_int m * 2 ^ k)"
proof (rule f64_round_exact[of _ m "int k"])
  show "real_of_int m * 2 ^ k = of_int m * 2 powr of_int (int k)"
    by (simp add: powr_realpow)
qed (use assms in simp_all)

lemma f64_round_halves:
  assumes "\<bar>m\<bar> < 2 ^ 53"
  shows "f64_round (of_int m / 2) = Fin (of_int m / 2)"
proof (rule f64_round_exact[of _ m "- 1"])
  show "real_of_int m / 2 = of_int m * 2 powr of_int (- 1)"
    by (simp add: powr_minus_divide)
  have "\<bar>real_of_int m\<bar> < 2 ^ 53" using assms by (metis of_int_abs of_int_less_numeral_power_cancel_iff)
  then show "\<bar>real_of_int m / 2\<bar> < 2 ^ 1024" by simp
qed (use assms in simp_all)

lemma floor_log2_eq:
  assumes "2 ^ n \<le> x" and "x < 2 ^ Suc n"
  shows "\<lfloor>log 2 x\<rfloor> = int n"
proof -
  have "(0 :: real) < 2 ^ n" by simp
  then have pos: "0 < x" using assms(1) by linarith
  have "2 powr real n \<le> x" using assms(1) by (simp add: powr_realpow)
  then have a: "real n \<le> log 2 x" using pos by (simp add: le_log_iff)
  have "x < 2 powr real (Suc n)" using assms(2) by (simp only: powr_realpow zero_less_numeral)
  then have b: "log 2 x < real (Suc n)" using pos by (simp add: log_less_iff)
  show ?thesis using a b by (simp add: floor_eq_iff)
qed

text \<open>The product \<open>2 ^ 1023 * 2\<close> of two \<^verbatim>\<open>float64\<close> numbers overflows.\<close>

lemma f64_round_overflow: "f64_round (2 ^ 1023 * 2) = PInf"
proof -
  have x: "(2::real) ^ 1023 * 2 = 2 ^ 1024" by simp
  have ab: "\<bar>(2::real) ^ 1024\<bar> = 2 ^ 1024" by simp
  have "\<lfloor>log 2 \<bar>(2::real) ^ 1024\<bar>\<rfloor> = int 1024"
    unfolding ab by (rule floor_log2_eq) simp_all
  then have e: "f64_ulp_exp (2 ^ 1024) = 972" by (simp add: f64_ulp_exp_def)
  have p: "(2::real) powr of_int 972 = 2 ^ 972" by (simp add: powr_realpow[symmetric])
  have q: "(2::real) ^ 1024 / 2 ^ 972 = of_int (2 ^ 52)" by (simp add: power_diff[symmetric])
  have r: "round_half_even ((2::real) ^ 1024 / 2 ^ 972) = 2 ^ 52"
    unfolding q by (rule round_half_even_of_int)
  have b: "real_of_int (2 ^ 52) * 2 ^ 972 = 2 ^ 1024" by (simp add: power_add[symmetric])
  show ?thesis
    unfolding x f64_round_def Let_def e p r b by simp
qed

text \<open>
  The exact product \<open>2 ^ 112 - 2 ^ 58\<close> needs 54 bits; it lies half way between two
  \<^verbatim>\<open>float64\<close> numbers and is rounded up to \<open>2 ^ 112\<close>.
\<close>

lemma f64_round_tie: "f64_round (2 ^ 112 - 2 ^ 58) = Fin (2 ^ 112)"
proof -
  let ?x = "(2::real) ^ 112 - 2 ^ 58"
  have pos: "0 < ?x" by simp
  have "\<lfloor>log 2 ?x\<rfloor> = int 111" by (rule floor_log2_eq) simp_all
  then have e: "f64_ulp_exp ?x = 59" using pos by (simp add: f64_ulp_exp_def)
  have p: "(2::real) powr of_int 59 = 2 ^ 59" by (simp add: powr_realpow[symmetric])
  have q: "?x / 2 ^ 59 = 2 ^ 53 - 1 / 2" by simp
  have f: "\<lfloor>(2::real) ^ 53 - 1 / 2\<rfloor> = 2 ^ 53 - 1" by (simp add: floor_eq_iff)
  have r: "round_half_even ((2::real) ^ 53 - 1 / 2) = 2 ^ 53"
    by (simp add: round_half_even_def f Let_def)
  have b: "real_of_int (2 ^ 53) * 2 ^ 59 = 2 ^ 112" by simp
  have nz: "?x \<noteq> 0" using pos by simp
  show ?thesis
    unfolding f64_round_def Let_def e p q r b using nz by simp
qed

lemma f64_round_one: "f64_round 1 = Fin 1"
  using f64_round_int_pow2[of 1 0] by simp

lemma f64_round_two: "f64_round 2 = Fin 2"
  using f64_round_int_pow2[of 2 0] by simp

lemma compute_amount_out_finite:
  assumes "f64_round amount_in = Fin a"
    and "\<forall>r\<in>set rs. is_finite (f64_round (r * a))"
  shows "compute_amount_out (map Fin rs) amount_in =
     Inr (map (\<lambda>r. Fin (of_int (drop_bit PC_RESOLUTION (py_int (fin_val (f64_round (r * a)))))))
            rs)"
  using assms(2)
proof (induction rs)
  case Nil
  then show ?case by simp
next
  case (Cons r rs)
  from Cons.prems obtain y where y: "f64_round (r * a) = Fin y"
    by (cases "f64_round (r * a)") auto
  then show ?case using Cons assms(1) by (simp add: f64_mul_def)
qed

lemma f64_round_not_nan: "f64_round x \<noteq> NaN"
  by (simp add: f64_round_def Let_def)

lemma compute_amount_out_infinite:
  assumes "f64_round amount_in = Fin a"
    and "\<exists>r\<in>set rs. \<not> is_finite (f64_round (r * a))"
  shows "compute_amount_out (map Fin rs) amount_in = Inl OverflowError"
  using assms(2)
proof (induction rs)
  case Nil
  then show ?case by simp
next
  case (Cons r rs)
  show ?case
  proof (cases "f64_round (r * a)")
    case (Fin y)
    then have "\<exists>r\<in>set rs. \<not> is_finite (f64_round (r * a))" using Cons.prems by auto
    then have "compute_amount_out (map Fin rs) amount_in = Inl OverflowError"
      by (rule Cons.IH)
    then show ?thesis using Fin assms(1) by (simp add: f64_mul_def)
  next
    case PInf
    then show ?thesis using assms(1) by (simp add: f64_mul_def)
  next
    case NInf
    then show ?thesis using assms(1) by (simp add: f64_mul_def)
  next
    case NaN
    then show ?thesis using f64_round_not_nan[of "r * a"] by simp
  qed
qed

text \<open>
  C8, as stated, promises a result for every rate and every \<open>amount_in\<close>.  The product
  of the two finite floats \<open>2 ^ 1023\<close> and \<open>2\<close> is an infinity, and \<^verbatim>\<open>int\<close> of it raises
  \<^verbatim>\<open>OverflowError\<close>: \<^verbatim>\<open>compute_amount_out\<close> returns no array.
\<close>

theorem compute_amount_out_overflow_counterexample:
  "compute_amount_out [Fin (2 ^ 1023)] 2 = Inl OverflowError"
proof -
  have "f64_mul (Fin (2 ^ 1023)) (Fin 2) = PInf"
    by (simp only: f64_mul_def fl_mul.simps fl.case f64_round_overflow)
  then show ?thesis
    unfolding compute_amount_out.simps f64_round_two
    by (simp only: py_int_fl.simps sum.case is_finite.simps not_True_eq_False if_False)
qed

text \<open>
  C8, amended.  When \<^verbatim>\<open>amount_in\<close> converts to the finite \<^verbatim>\<open>float64\<close> \<open>a\<close> and every
  \<^verbatim>\<open>float64\<close> product \<open>rate[i] * a\<close> is finite, \<^verbatim>\<open>compute_amount_out\<close> returns an array of
  the same length whose element \<open>i\<close> is the rounded product, truncated towards zero by
  \<^verbatim>\<open>int\<close> and then shifted right by 112 bits, that is, divided by \<open>2 ^ 112\<close> with the
  quotient rounded down; when one of the products is an infinity, it raises
  \<^verbatim>\<open>OverflowError\<close>.  For \<open>amount_in = 1\<close> and a rate that is an integer
  \<open>x = m * 2 ^ k\<close> with \<open>\<bar>m\<bar> < 2 ^ 53\<close>, a \<^verbatim>\<open>float64\<close>, the result is \<open>x >> 112\<close>.
\<close>

theorem compute_amount_out_shifts:
  "(f64_round amount_in = Fin a \<and> (\<forall>r\<in>set rates. is_finite (f64_round (r * a))) \<longrightarrow>
      compute_amount_out (map Fin rates) amount_in =
        Inr (map (\<lambda>r. Fin (of_int
                   ((if 0 \<le> fin_val (f64_round (r * a))
                     then \<lfloor>fin_val (f64_round (r * a))\<rfloor>
                     else \<lceil>fin_val (f64_round (r * a))\<rceil>) div 2 ^ 112)))
               rates))
   \<and> (f64_round amount_in = Fin a \<and> (\<exists>r\<in>set rates. \<not> is_finite (f64_round (r * a))) \<longrightarrow>
        compute_amount_out (map Fin rates) amount_in = Inl OverflowError)
   \<and> (\<bar>m\<bar> < 2 ^ 53 \<and> \<bar>real_of_int (m * 2 ^ k)\<bar> < 2 ^ 1024 \<longrightarrow>
        compute_amount_out [Fin (of_int (m * 2 ^ k))] 1
          = Inr [Fin (of_int ((m * 2 ^ k) div 2 ^ 112))])"
proof (intro conjI impI)
  assume "f64_round amount_in = Fin a \<and> (\<exists>r\<in>set rates. \<not> is_finite (f64_round (r * a)))"
  then show "compute_amount_out (map Fin rates) amount_in = Inl OverflowError"
    using compute_amount_out_infinite[of amount_in a rates] by blast
next
  assume "f64_round amount_in = Fin a \<and> (\<forall>r\<in>set rates. is_finite (f64_round (r * a)))"
  then show "compute_amount_out (map Fin rates) amount_in =
        Inr (map (\<lambda>r. Fin (of_int
                   ((if 0 \<le> fin_val (f64_round (r * a))
                     then \<lfloor>fin_val (f64_round (r * a))\<rfloor>
                     else \<lceil>fin_val (f64_round (r * a))\<rceil>) div 2 ^ 112)))
               rates)"
    by (simp add: compute_amount_out_finite[of amount_in a] drop_bit_eq_div PC_RESOLUTION_def
          py_int_def)
next
  assume h: "\<bar>m\<bar> < 2 ^ 53 \<and> \<bar>real_of_int (m * 2 ^ k)\<bar> < 2 ^ 1024"
  then have "f64_round (of_int m * 2 ^ k) = Fin (of_int m * 2 ^ k)"
    by (intro f64_round_int_pow2) simp_all
  then have r: "f64_round (real_of_int (m * 2 ^ k) * 1) = Fin (real_of_int (m * 2 ^ k))"
    by simp
  have i: "py_int (real_of_int (m * 2 ^ k)) = m * 2 ^ k"
    by (simp only: py_int_def of_int_0_le_iff floor_of_int ceiling_of_int if_cancel)
  show "compute_amount_out [Fin (of_int (m * 2 ^ k))] 1
          = Inr [Fin (of_int ((m * 2 ^ k) div 2 ^ 112))]"
    using compute_amount_out_finite[OF f64_round_one, of "[real_of_int (m * 2 ^ k)]"] r i
    by (simp add: drop_bit_eq_div PC_RESOLUTION_def)
qed

theorem compute_amount_out_shifts_witness:
  "compute_amount_out [Fin (- 1 / 2), Fin (5 / 2)] 1 = Inr [Fin 0, Fin 0]
   \<and> compute_amount_out [Fin 3] ((2 ^ 112 - 2 ^ 58) / 3) = Inr [Fin 1]
   \<and> compute_amount_out [Fin (- 5 * 2 ^ 111)] 1 = Inr [Fin (- 3)]
   \<and> compute_amount_out [Fin (3 * 2 ^ 112)] 1 = Inr [Fin 3]
   \<and> compute_amount_out [Fin 1, Fin (2 ^ 1023)] 2 = Inl OverflowError"
proof -
  have o: "\<not> is_finite (f64_round (2 ^ 1023 * 2))"
    by (simp only: f64_round_overflow is_finite.simps not_False_eq_True)
  have "(2 :: real) ^ 1023 \<in> set [1, 2 ^ 1023]" by simp
  then have "\<exists>r\<in>set [1, 2 ^ 1023]. \<not> is_finite (f64_round (r * 2))"
    using o by (rule rev_bexI)
  with compute_amount_out_shifts[where rates = "[1, 2 ^ 1023]" and amount_in = 2 and a = 2
         and m = 0 and k = 0] f64_round_two
  have w5: "compute_amount_out (map Fin [1, 2 ^ 1023]) 2 = Inl OverflowError"
    by blast
  have a: "f64_round (- 1 / 2) = Fin (- 1 / 2)" using f64_round_halves[of "- 1"] by simp
  have b: "f64_round (5 / 2) = Fin (5 / 2)" using f64_round_halves[of 5] by simp
  have c: "f64_round (3 * ((2 ^ 112 - 2 ^ 58) / 3)) = Fin (2 ^ 112)"
    using f64_round_tie by simp
  have d: "f64_round ((2 ^ 112 - 2 ^ 58) / 3) = Fin ((2 ^ 112 - 2 ^ 58) / 3)"
    using f64_round_int_pow2[of 6004799503160661 58] by simp
  from compute_amount_out_shifts[where rates = "[- 1 / 2, 5 / 2]" and amount_in = 1 and a = 1
         and m = 0 and k = 0] a b f64_round_one
  have w1: "compute_amount_out [Fin (- 1 / 2), Fin (5 / 2)] 1 = Inr [Fin 0, Fin 0]"
    by simp
  from compute_amount_out_shifts[where rates = "[3]" and amount_in = "(2 ^ 112 - 2 ^ 58) / 3"
         and a = "(2 ^ 112 - 2 ^ 58) / 3" and m = 0 and k = 0] c d
  have w2: "compute_amount_out [Fin 3] ((2 ^ 112 - 2 ^ 58) / 3) = Inr [Fin 1]"
    by simp
  from compute_amount_out_shifts[where rates = "[]" and amount_in = 1 and a = 1
         and m = "- 5" and k = 111]
  have w3: "compute_amount_out [Fin (- 5 * 2 ^ 111)] 1 = Inr [Fin (- 3)]"
    by simp
  from compute_amount_out_shifts[where rates = "[]" and amount_in = 1 and a = 1
         and m = 3 and k = 112]
  have w4: "compute_amount_out [Fin (3 * 2 ^ 112)] 1 = Inr [Fin 3]"
    by simp
  show ?thesis using w1 w2 w3 w4 w5 unfolding list.map by (simp only: simp_thms)
qed

section \<open>Properties of the estimator\<close>

lemma fl_add_NaN_right [simp]: "fl_add x NaN = NaN"
  by (cases x) simp_all

lemma fl_mul_NaN_right [simp]: "fl_mul x NaN = NaN"
  by (cases x) simp_all

lemma fl_sum_Fin_aux: "foldl fl_add (Fin a) (map Fin rs) = Fin (a + sum_list rs)"
  by (induction rs arbitrary: a) (simp_all add: add.assoc)

lemma fl_sum_Fin: "fl_sum (map Fin rs) = Fin (sum_list rs)"
  by (simp add: fl_sum_def fl_sum_Fin_aux)

lemma np_mean_Fin: "rs \<noteq> [] \<Longrightarrow> np_mean (map Fin rs) = Fin (spec_mean rs)"
  by (simp add: np_mean_def fl_sum_Fin spec_mean_def)

lemma np_var_Fin: "rs \<noteq> [] \<Longrightarrow> np_var (map Fin rs) = Fin (spec_pop_variance rs)"
proof -
  assume ne: "rs \<noteq> []"
  let ?m = "spec_mean rs"
  have sq: "map (\<lambda>x. fl_mul (fl_sub x (Fin ?m)) (fl_sub x (Fin ?m))) (map Fin rs)
      = map Fin (map (\<lambda>r. (r - ?m)\<^sup>2) rs)"
    by (simp add: fl_sub_def power2_eq_square)
  have ne2: "map (\<lambda>r. (r - ?m)\<^sup>2) rs \<noteq> []" using ne by simp
  have "np_var (map Fin rs) = np_mean (map Fin (map (\<lambda>r. (r - ?m)\<^sup>2) rs))"
    unfolding np_var_def Let_def np_mean_Fin[OF ne] sq ..
  also have "\<dots> = Fin (spec_mean (map (\<lambda>r. (r - ?m)\<^sup>2) rs))"
    by (rule np_mean_Fin[OF ne2])
  also have "\<dots> = Fin (spec_pop_variance rs)"
    by (simp add: spec_pop_variance_def spec_mean_def)
  finally show ?thesis .
qed

lemma log_returns_Fin:
  assumes "\<forall>x\<in>set xs. 0 < x"
  shows "log_returns (map Fin xs) = map Fin (spec_log_returns xs)"
proof -
  have "np_log (fl_div (map Fin xs ! i) (map Fin xs ! (i - 1))) = Fin (ln (xs ! i / xs ! (i - 1)))"
    if "i \<in> set [1..<length xs]" for i
  proof -
    from that have i: "i < length xs" "i - 1 < length xs" by auto
    then have "0 < xs ! i" "0 < xs ! (i - 1)" using assms nth_mem by blast+
    then show ?thesis using i by simp
  qed
  then show ?thesis by (simp add: log_returns_def spec_log_returns_def)
qed

text \<open>
  C4.  For a TWAP sample array of at least two positive values and a period \<open>t \<noteq> 0\<close>,
  \<^verbatim>\<open>get_stat\<close> takes the log-returns \<open>ln (twap\<^sub>i / twap\<^sub>i\<^sub>-\<^sub>1)\<close> for \<open>i = 1..len-1\<close> and
  returns \<open>mu = mean r / t\<close> and \<open>sigSqrd = variance r / t\<close>, the variance being the
  population variance: squared deviations from the sample's own mean, divided by the
  number of returns.
\<close>

theorem get_stat_calibration:
  assumes "2 \<le> length xs" and "\<forall>x\<in>set xs. 0 < x" and "t \<noteq> 0"
  shows "log_returns (map Fin xs) = map Fin (spec_log_returns xs)
       \<and> mu (get_stat ts (map Fin xs) t alphas ns)
           = Fin (spec_mean (spec_log_returns xs) / real_of_int t)
       \<and> sigSqrd (get_stat ts (map Fin xs) t alphas ns)
           = Fin (spec_pop_variance (spec_log_returns xs) / real_of_int t)"
proof -
  have "[1..<length xs] \<noteq> []" using assms(1) by auto
  then have ne: "spec_log_returns xs \<noteq> []" unfolding spec_log_returns_def by simp
  show ?thesis using assms(3)
    by (simp add: get_stat_def Let_def log_returns_Fin[OF assms(2)]
          np_mean_Fin[OF ne] np_var_Fin[OF ne])
qed

theorem get_stat_calibration_witness:
  "2 \<le> length [1, 2, 4 :: real]
   \<and> spec_log_returns [1, 2, 4] = [ln 2, ln 2]
   \<and> log_returns [Fin 1, Fin 2, Fin 4] = [Fin (ln 2), Fin (ln 2)]
   \<and> mu (get_stat 0 [Fin 1, Fin 2, Fin 4] 60 [] []) = Fin (ln 2 / 60)
   \<and> sigSqrd (get_stat 0 [Fin 1, Fin 2, Fin 4] 60 [] []) = Fin 0"
proof -
  have u: "[1..<3] = [1, 2]" by (simp add: upt_rec)
  have r: "spec_log_returns [1, 2, 4] = [ln 2, ln 2]"
    by (simp add: spec_log_returns_def u)
  show ?thesis
    using get_stat_calibration[of "[1, 2, 4]" 60 0 "[]" "[]"]
    by (simp add: r spec_mean_def spec_pop_variance_def)
qed

lemma calc_vars_Fin:
  assumes "0 \<le> ss" and "0 \<le> n * t" and "\<forall>a\<in>set alphas. 0 < a \<and> a < 1"
  shows "calc_vars (Fin m) (Fin ss) t n (map Fin alphas) =
     map (\<lambda>a. Fin (exp (m * real_of_int n * real_of_int t
                         + sqrt (ss * real_of_int n * real_of_int t) * probit (1 - a)) - 1))
       alphas"
proof -
  have "0 \<le> real_of_int (n * t)" using assms(2) by linarith
  then have nt: "0 \<le> real_of_int n * real_of_int t" by simp
  show ?thesis using assms nt
    by (simp add: calc_vars_def fl_sub_def real_sqrt_mult mult.assoc)
qed

text \<open>
  C3.  For every \<open>mu\<close>, every \<open>sigma_sqrd \<ge> 0\<close>, a period \<open>t\<close> and a horizon \<open>n\<close> (of
  one sign, so that \<open>n * t\<close> has a square root) and every \<open>alpha\<close> in \<open>(0, 1)\<close>,
  \<^verbatim>\<open>calc_vars\<close> returns
  \<open>exp (mu * n * t + sqrt (sigma_sqrd * n * t) * \<Phi>\<^sup>-\<^sup>1 (1 - alpha)) - 1\<close>; with
  \<open>mu = 0\<close> and \<open>sigma_sqrd = 0\<close> it returns \<open>0\<close> for every \<open>alpha\<close> and \<open>n\<close>.
\<close>

theorem calc_vars_formula:
  assumes "0 \<le> sigma_sqrd" and "0 \<le> n * t" and "\<forall>a\<in>set alphas. 0 < a \<and> a < 1"
  shows "calc_vars (Fin m) (Fin sigma_sqrd) t n (map Fin alphas) =
           map (\<lambda>a. Fin (exp (m * real_of_int n * real_of_int t
                   + sqrt (sigma_sqrd * real_of_int n * real_of_int t) * probit (1 - a)) - 1))
             alphas
       \<and> calc_vars (Fin 0) (Fin 0) t n (map Fin alphas) = map (\<lambda>a. Fin 0) alphas"
  using calc_vars_Fin[OF assms, of m] calc_vars_Fin[OF _ assms(2,3), of 0 0] by simp

theorem calc_vars_formula_witness:
  "calc_vars (Fin (1 / 10000)) (Fin (2 / 10000)) 60 144 [Fin (1 / 20)]
     = [Fin (exp (1 / 10000 * 144 * 60 + sqrt (2 / 10000 * 144 * 60) * probit (19 / 20)) - 1)]
   \<and> calc_vars (Fin 0) (Fin 0) 60 144 [Fin (1 / 20), Fin (1 / 100)] = [Fin 0, Fin 0]"
  using calc_vars_formula[of "2 / 10000" 144 60 "[1 / 20]" "1 / 10000"]
        calc_vars_formula[of 0 144 60 "[1 / 20, 1 / 100]" 0]
  by simp

lemma calc_vars_NaN:
  "m = NaN \<or> ss = NaN \<Longrightarrow> v \<in> set (calc_vars m ss t n alphas) \<Longrightarrow> v = NaN"
  by (auto simp: calc_vars_def fl_sub_def Let_def)

lemma length_calc_vars: "length (calc_vars m ss t n alphas) = length alphas"
  by (simp add: calc_vars_def)

text \<open>
  C1, as the specification states it, fails: \<^verbatim>\<open>get_stat\<close> has no test for \<open>NaN\<close> or an
  infinity.  A series with a single TWAP sample has no log-return; the mean and the
  variance of the empty list are \<open>NaN\<close>, and the record is built and returned with them.
\<close>

theorem get_stat_emits_nan_counterexample:
  "get_stat 1600000000 [Fin 2] 60 [Fin (1 / 20)] [144]
     = \<lparr>rs_timestamp = 1600000000, mu = NaN, sigSqrd = NaN,
        var_cells = [((Fin (1 / 20), 144), NaN)]\<rparr>"
  by (simp add: get_stat_def log_returns_def np_mean_def np_var_def fl_sum_def
        calc_vars_def fl_sub_def)

text \<open>
  C1, amended.  \<^verbatim>\<open>get_stat\<close> returns a record for every input, with the timestamp it
  was given and one VaR cell per horizon and alpha, in that order; when \<open>mu\<close> or
  \<open>sigSqrd\<close> is \<open>NaN\<close>, the value is kept in the record and every VaR cell of the
  record is \<open>NaN\<close> too.
\<close>

theorem get_stat_keeps_nan:
  "rs_timestamp (get_stat ts sample t alphas ns) = ts
   \<and> map fst (var_cells (get_stat ts sample t alphas ns))
       = concat (map (\<lambda>n. map (\<lambda>alpha. (alpha, n)) alphas) ns)
   \<and> (mu (get_stat ts sample t alphas ns) = NaN \<or> sigSqrd (get_stat ts sample t alphas ns) = NaN
        \<longrightarrow> (\<forall>c\<in>set (var_cells (get_stat ts sample t alphas ns)). snd c = NaN))"
proof -
  have k: "map fst (concat (map (\<lambda>n. zip (map (\<lambda>alpha. (alpha, n)) alphas)
                                        (calc_vars m ss t n alphas)) ns))
     = concat (map (\<lambda>n. map (\<lambda>alpha. (alpha, n)) alphas) ns)" for m ss
    by (induction ns) (simp_all add: length_calc_vars)
  have n: "snd c = NaN"
    if c: "c \<in> set (concat (map (\<lambda>n. zip (map (\<lambda>alpha. (alpha, n)) alphas)
                                        (calc_vars m ss t n alphas)) ns))"
      and d: "m = NaN \<or> ss = NaN" for c m ss
  proof -
    from c obtain k where
      "c \<in> set (zip (map (\<lambda>alpha. (alpha, k)) alphas) (calc_vars m ss t k alphas))"
      by auto
    then have "snd c \<in> set (calc_vars m ss t k alphas)"
      using set_zip_rightD[of "fst c" "snd c"] by simp
    with d show "snd c = NaN" by (rule calc_vars_NaN)
  qed
  show ?thesis
    unfolding get_stat_def Let_def using k n by simp
qed

theorem get_stat_keeps_nan_witness:
  "mu (get_stat 0 [Fin 2] 60 [Fin (1 / 20), Fin (1 / 100)] [144, 1008]) = NaN
   \<and> map snd (var_cells (get_stat 0 [Fin 2] 60 [Fin (1 / 20), Fin (1 / 100)] [144, 1008]))
       = [NaN, NaN, NaN, NaN]"
proof -
  let ?r = "get_stat 0 [Fin 2] 60 [Fin (1 / 20), Fin (1 / 100)] [144, 1008]"
  have m: "mu ?r = NaN"
    by (simp add: get_stat_def log_returns_def np_mean_def np_var_def fl_sum_def)
  from get_stat_keeps_nan[of 0 "[Fin 2]" 60 "[Fin (1 / 20), Fin (1 / 100)]" "[144, 1008]"] m
  have a: "\<forall>c\<in>set (var_cells ?r). snd c = NaN"
    by blast
  have l: "length (var_cells ?r) = 4"
    by (simp add: get_stat_def Let_def length_calc_vars)
  show ?thesis using m a l
    by (simp add: get_stat_def Let_def calc_vars_def)
qed

section \<open>Properties of the fixed-window TWAP\<close>

lemma window_ends:
  assumes "1 \<le> w" and "w \<le> i + 1" and "i < length xs"
  shows "last (take w (drop (i + 1 - w) xs)) = xs ! i"
    and "hd (take w (drop (i + 1 - w) xs)) = xs ! (i + 1 - w)"
proof -
  let ?k = "i + 1 - w"
  let ?ys = "take w (drop ?k xs)"
  have len: "length ?ys = w" using assms by simp
  then have ne: "?ys \<noteq> []" using assms(1) by auto
  have "last ?ys = ?ys ! (w - 1)" using len ne by (simp add: last_conv_nth)
  also have "\<dots> = xs ! (?k + (w - 1))" using assms by simp
  also have "?k + (w - 1) = i" using assms by simp
  finally show "last ?ys = xs ! i" .
  have "hd ?ys = ?ys ! 0" using ne by (simp add: hd_conv_nth)
  also have "\<dots> = xs ! ?k" using assms by simp
  finally show "hd ?ys = xs ! ?k" .
qed

lemma rolling_apply_nth:
  assumes "1 \<le> w" and "i < length xs"
  shows "rolling_apply w last_minus_first xs ! i =
           (if w \<le> i + 1 then Fin (xs ! i - xs ! (i + 1 - w)) else NaN)"
  using assms window_ends[of w i xs]
  by (simp add: rolling_apply_def last_minus_first_def)

lemma length_rolling_apply: "length (rolling_apply w f xs) = length xs"
  by (simp add: rolling_apply_def)

lemma twap_rates_nth:
  assumes "1 \<le> w" and "i < length pc"
  shows "twap_rates pc w ! i =
           (if w \<le> i + 1
            then fl_div (Fin (p_value (pc ! i) - p_value (pc ! (i + 1 - w))))
                   (Fin (real_of_int (p_time (pc ! i))
                         - real_of_int (p_time (pc ! (i + 1 - w)))))
            else NaN)"
  using assms
  by (simp add: twap_rates_def Let_def length_rolling_apply rolling_apply_nth)

lemma compute_amount_out_three_halves:
  "compute_amount_out [Fin (3 / 2)] (2 ^ 112) = Inr [Fin 1]"
proof -
  have p: "(3 / 2 :: real) * 2 ^ 112 = of_int 3 * 2 ^ 111" by simp
  have f: "f64_round (3 / 2 * 2 ^ 112) = Fin (of_int 3 * 2 ^ 111)"
    unfolding p by (rule f64_round_int_pow2) simp_all
  have a: "f64_round (2 ^ 112) = Fin (2 ^ 112)"
    using f64_round_int_pow2[of 1 112] by simp
  from compute_amount_out_finite[OF a, of "[3 / 2]"] f show ?thesis
    by (simp add: py_int_def PC_RESOLUTION_def drop_bit_eq_div)
qed

text \<open>
  C2.  What \<^verbatim>\<open>get_twap\<close> of \<^verbatim>\<open>influx_metrics.py\<close> computes on a series with uniform
  spacing \<open>period\<close>: a row is valid from index \<open>window - 1\<close> on, and its rate is the
  difference of the values \<open>window - 1\<close> rows apart, divided by the time
  \<open>(window - 1) * period\<close> between them.  The parameter \<open>window\<close>, given in seconds, is
  used as a number of rows; for \<open>window = k * period\<close> the span is not \<open>k\<close> rows and
  the divisor is not \<open>k * period\<close>, which the claim promises.
\<close>

theorem fixed_window_rate_span:
  assumes "1 \<le> w" and "i < length pc"
    and "\<forall>j<length pc. p_time (pc ! j) = t0 + int j * period"
    and "period \<noteq> 0"
  shows "twap_rates pc w ! i =
           (if i + 1 < w then NaN
            else if w = 1 then NaN
            else Fin ((p_value (pc ! i) - p_value (pc ! (i - (w - 1))))
                        / (real (w - 1) * real_of_int period)))"
proof (cases "w \<le> i + 1")
  case False
  then show ?thesis using assms by (simp add: twap_rates_nth)
next
  case True
  have k: "i + 1 - w = i - (w - 1)" using assms(1) True by simp
  have lt: "i - (w - 1) < length pc" using assms(2) by simp
  have "p_time (pc ! i) - p_time (pc ! (i - (w - 1))) = int (w - 1) * period"
    using assms(2,3) lt True assms(1) by (simp add: algebra_simps)
  then have "real_of_int (p_time (pc ! i)) - real_of_int (p_time (pc ! (i - (w - 1))))
      = real (w - 1) * real_of_int period"
    by (metis of_int_diff of_int_mult of_int_of_nat_eq)
  then show ?thesis using assms True k
    by (auto simp: twap_rates_nth)
qed

theorem fixed_window_rate_span_witness:
  "twap_rates uniform_series 4 = [NaN, NaN, NaN, Fin (3 / 2)]
   \<and> get_twap uniform_series (2 ^ 112) 4
       = Inr [\<lparr>timestamp = Fin 6, window = Fin 6, twap = Fin 1\<rparr>]"
proof -
  have u: "[0..<4] = [0, 1, 2, 3]" by (simp add: upt_rec)
  have h: "\<forall>j<length uniform_series. p_time (uniform_series ! j) = 0 + int j * 2"
    by (simp add: uniform_series_def less_Suc_eq eval_nat_numeral all_conj_distrib)
  have l: "length (twap_rates uniform_series 4) = 4"
    by (simp add: twap_rates_def rolling_apply_def uniform_series_def)
  have r: "twap_rates uniform_series 4 ! 0 = NaN" "twap_rates uniform_series 4 ! 1 = NaN"
      "twap_rates uniform_series 4 ! 2 = NaN" "twap_rates uniform_series 4 ! 3 = Fin (3 / 2)"
    using fixed_window_rate_span[of 4 0 uniform_series 0 2, OF _ _ h]
      fixed_window_rate_span[of 4 1 uniform_series 0 2, OF _ _ h]
      fixed_window_rate_span[of 4 2 uniform_series 0 2, OF _ _ h]
      fixed_window_rate_span[of 4 3 uniform_series 0 2, OF _ _ h]
    by (simp_all add: uniform_series_def)
  have e: "twap_rates uniform_series 4 = [NaN, NaN, NaN, Fin (3 / 2)]"
    using l r by (auto simp: list_eq_iff_nth_eq less_Suc_eq eval_nat_numeral)
  have c: "compute_amount_out [Fin (3 / 2)] 5192296858534827628530496329220096 = Inr [Fin 1]"
    using compute_amount_out_three_halves by simp
  have g: "get_twap uniform_series (2 ^ 112) 4
             = Inr [\<lparr>timestamp = Fin 6, window = Fin 6, twap = Fin 1\<rparr>]"
    apply (simp add: get_twap_def Let_def e c del: compute_amount_out.simps)
    apply (simp add: rolling_apply_def u uniform_series_def last_minus_first_def
             data_frame3_def pad_def)
    done
  show ?thesis using e g by simp
qed

section \<open>Properties of the dynamic-window TWAP\<close>

lemma idxmin_from_Some:
  "\<exists>j' m'. idxmin_from i (map Some ss) (Some (j, m)) = Some (j', m')
      \<and> m' \<le> m \<and> (\<forall>s\<in>set ss. m' \<le> s)
      \<and> ((j' = j \<and> m' = m)
         \<or> (\<exists>k<length ss. j' = i + k \<and> m' = ss ! k \<and> m' < m \<and> (\<forall>k'<k. m' < ss ! k')))"
proof (induction ss arbitrary: i j m)
  case Nil
  then show ?case by simp
next
  case (Cons s ss)
  show ?case
  proof (cases "s < m")
    case True
    from Cons.IH[of "Suc i" i s] obtain j' m' where
      r: "idxmin_from (Suc i) (map Some ss) (Some (i, s)) = Some (j', m')"
      and le: "m' \<le> s" and all: "\<forall>x\<in>set ss. m' \<le> x"
      and d: "(j' = i \<and> m' = s)
         \<or> (\<exists>k<length ss. j' = Suc i + k \<and> m' = ss ! k \<and> m' < s \<and> (\<forall>k'<k. m' < ss ! k'))"
      by blast
    from d show ?thesis
    proof
      assume "j' = i \<and> m' = s"
      then show ?thesis using True r all
        by (intro exI[of _ j'] exI[of _ m']) (auto intro!: exI[of _ 0])
    next
      assume "\<exists>k<length ss. j' = Suc i + k \<and> m' = ss ! k \<and> m' < s \<and> (\<forall>k'<k. m' < ss ! k')"
      then obtain k where k: "k < length ss" "j' = Suc i + k" "m' = ss ! k" "m' < s" "\<forall>k'<k. m' < ss ! k'"
        by blast
      have "\<forall>k'<Suc k. m' < (s # ss) ! k'"
        using k(4,5) by (auto simp: nth_Cons split: nat.splits)
      then show ?thesis using True r all le k
        by (intro exI[of _ j'] exI[of _ m']) (auto intro!: exI[of _ "Suc k"])
    qed
  next
    case False
    from Cons.IH[of "Suc i" j m] obtain j' m' where
      r: "idxmin_from (Suc i) (map Some ss) (Some (j, m)) = Some (j', m')"
      and le: "m' \<le> m" and all: "\<forall>x\<in>set ss. m' \<le> x"
      and d: "(j' = j \<and> m' = m)
         \<or> (\<exists>k<length ss. j' = Suc i + k \<and> m' = ss ! k \<and> m' < m \<and> (\<forall>k'<k. m' < ss ! k'))"
      by blast
    from d show ?thesis
    proof
      assume "j' = j \<and> m' = m"
      then show ?thesis using False r all
        by (intro exI[of _ j'] exI[of _ m']) auto
    next
      assume "\<exists>k<length ss. j' = Suc i + k \<and> m' = ss ! k \<and> m' < m \<and> (\<forall>k'<k. m' < ss ! k')"
      then obtain k where k: "k < length ss" "j' = Suc i + k" "m' = ss ! k" "m' < m" "\<forall>k'<k. m' < ss ! k'"
        by blast
      have "\<forall>k'<Suc k. m' < (s # ss) ! k'"
        using k(4,5) False by (auto simp: nth_Cons split: nat.splits)
      then show ?thesis using False r all le k
        by (intro exI[of _ j'] exI[of _ m']) (auto intro!: exI[of _ "Suc k"])
    qed
  qed
qed

lemma idxmin_first_min:
  assumes "ss \<noteq> []"
  shows "\<exists>l. idxmin (map Some ss) = Some l \<and> 1 \<le> l \<and> l \<le> length ss
           \<and> (\<forall>k<length ss. ss ! (l - 1) \<le> ss ! k)
           \<and> (\<forall>k<l - 1. ss ! (l - 1) < ss ! k)"
proof -
  from assms obtain s ss' where ss: "ss = s # ss'" by (cases ss) auto
  from idxmin_from_Some[of 2 ss' 1 s] obtain j' m' where
      r: "idxmin_from 2 (map Some ss') (Some (1, s)) = Some (j', m')"
      and le: "m' \<le> s" and all: "\<forall>x\<in>set ss'. m' \<le> x"
      and d: "(j' = 1 \<and> m' = s)
         \<or> (\<exists>k<length ss'. j' = 2 + k \<and> m' = ss' ! k \<and> m' < s \<and> (\<forall>k'<k. m' < ss' ! k'))"
    by blast
  have i: "idxmin (map Some ss) = Some j'"
    using r by (simp add: idxmin_def ss numeral_2_eq_2)
  have allk: "\<forall>k<length ss. m' \<le> ss ! k"
    using le all by (auto simp: ss nth_Cons split: nat.splits)
  from d show ?thesis
  proof
    assume "j' = 1 \<and> m' = s"
    then show ?thesis using i allk by (auto simp: ss)
  next
    assume "\<exists>k<length ss'. j' = 2 + k \<and> m' = ss' ! k \<and> m' < s \<and> (\<forall>k'<k. m' < ss' ! k')"
    then obtain k where k: "k < length ss'" "j' = 2 + k" "m' = ss' ! k" "m' < s" "\<forall>k'<k. m' < ss' ! k'"
      by blast
    have e: "ss ! (j' - 1) = m'" using k by (simp add: ss)
    have "\<forall>k'<j' - 1. m' < ss ! k'"
      using k by (auto simp: ss nth_Cons split: nat.splits)
    then show ?thesis using i allk e k(1,2) by (auto simp: ss)
  qed
qed

lemma score_columns_full:
  assumes "mr \<le> row" and "row < length df"
  shows "score_columns df mr w row =
           map Some (map (\<lambda>i. \<bar>p_time (df ! row) - p_time (df ! (row - i)) - w\<bar>) [1..<Suc mr])"
proof -
  have "lag_score (map p_time df) w row i
          = Some \<bar>p_time (df ! row) - p_time (df ! (row - i)) - w\<bar>"
    if "i \<in> set [1..<Suc mr]" for i
  proof -
    from that assms have "i \<le> row" "row - i < length df" by auto
    then show ?thesis using assms(2) by (simp add: lag_score_def)
  qed
  then show ?thesis by (simp add: score_columns_def)
qed

lemma score_columns_partial:
  assumes "row < mr"
  shows "\<not> list_all (\<lambda>c. c \<noteq> None) (score_columns df mr w row)"
proof -
  have "mr \<in> set [1..<Suc mr]" using assms by simp
  moreover have "lag_score (map p_time df) w row mr = None"
    using assms by (simp add: lag_score_def)
  ultimately have "None \<in> set (score_columns df mr w row)"
    unfolding score_columns_def by (metis image_eqI set_map)
  then show ?thesis by (auto simp: list_all_iff)
qed

lemma dynamic_window_rows:
  assumes "1 \<le> mr"
  shows "dynamic_window df mr w =
           Inr (map (\<lambda>row. \<lparr>lr_label = row, lr_point = df ! row,
                             lr_lag = the (idxmin (score_columns df mr w row))\<rparr>)
                  [mr..<length df])"
proof -
  let ?f = "\<lambda>row. let cols = score_columns df mr w row
             in if list_all (\<lambda>c. c \<noteq> None) cols
                then (case idxmin cols of
                        Some l \<Rightarrow> [\<lparr>lr_label = row, lr_point = df ! row, lr_lag = l\<rparr>]
                      | None \<Rightarrow> [])
                else []"
  let ?g = "\<lambda>row. \<lparr>lr_label = row, lr_point = df ! row,
                             lr_lag = the (idxmin (score_columns df mr w row))\<rparr>"
  have a: "?f row = []" if "row < mr" for row
    using score_columns_partial[OF that] by (simp add: Let_def)
  have b: "?f row = [?g row]" if h: "mr \<le> row" "row < length df" for row
  proof -
    have ne: "map (\<lambda>i. \<bar>p_time (df ! row) - p_time (df ! (row - i)) - w\<bar>) [1..<Suc mr] \<noteq> []"
      using assms by simp
    from idxmin_first_min[OF ne] obtain l where
      "idxmin (score_columns df mr w row) = Some l"
      unfolding score_columns_full[OF h] by blast
    moreover have "list_all (\<lambda>c. c \<noteq> None) (score_columns df mr w row)"
      unfolding score_columns_full[OF h] by (simp add: list_all_iff)
    ultimately show ?thesis by (simp add: Let_def)
  qed
  have "concat (map ?f [0..<length df]) = map ?g [mr..<length df]"
  proof (cases "mr \<le> length df")
    case True
    have "concat (map ?f [0..<n]) = map ?g [mr..<n]" if "n \<le> length df" for n
      using that
    proof (induction n)
      case 0
      then show ?case by simp
    next
      case (Suc n)
      show ?case
      proof (cases "n < mr")
        case True
        then show ?thesis using Suc a by simp
      next
        case False
        then have "[mr..<Suc n] = [mr..<n] @ [n]" by simp
        moreover have "?f n = [?g n]" using b[of n] False Suc.prems by simp
        ultimately show ?thesis using Suc by simp
      qed
    qed
    then show ?thesis by simp
  next
    case False
    then have "\<forall>row\<in>set [0..<length df]. ?f row = []" using a by simp
    then have "concat (map ?f [0..<length df]) = []" by simp
    then show ?thesis using False by simp
  qed
  then show ?thesis using assms by (simp add: dynamic_window_def)
qed

lemma max_rows_floor:
  assumes "0 \<le> w" and "0 < p"
  shows "max_rows w p = \<lfloor>(real_of_int w / real_of_int p + 1) * 2\<rfloor>"
    and "max_rows w p = (2 * w) div p + 2"
proof -
  have nn: "0 \<le> (real_of_int w / real_of_int p + 1) * 2" using assms by simp
  then show a: "max_rows w p = \<lfloor>(real_of_int w / real_of_int p + 1) * 2\<rfloor>"
    by (simp add: max_rows_def py_int_def)
  have "(real_of_int w / real_of_int p + 1) * 2 = real_of_int (2 * w) / real_of_int p + 2"
    by (simp add: algebra_simps)
  then have "\<lfloor>(real_of_int w / real_of_int p + 1) * 2\<rfloor> = \<lfloor>real_of_int (2 * w) / real_of_int p + 2\<rfloor>"
    by presburger
  also have "\<dots> = \<lfloor>real_of_int (2 * w) / real_of_int p\<rfloor> + 2"
    by linarith
  also have "\<lfloor>real_of_int (2 * w) / real_of_int p\<rfloor> = (2 * w) div p"
    by (rule floor_divide_of_int_eq)
  finally show "max_rows w p = (2 * w) div p + 2" using a by simp
qed

lemma max_rows_dvd:
  assumes "0 \<le> w" and "0 < p" and "p dvd w"
  shows "max_rows w p = \<lceil>real_of_int w / real_of_int p + 1\<rceil> * 2"
proof -
  from assms(3) obtain k where k: "w = p * k" by (auto simp: dvd_def)
  have "real_of_int w / real_of_int p = real_of_int k" using assms(2) k by simp
  then have "\<lceil>real_of_int w / real_of_int p + 1\<rceil> = k + 1" by simp
  moreover have "(2 * w) div p = 2 * k" using assms(2) k by simp
  ultimately show ?thesis using max_rows_floor(2)[OF assms(1,2)] by simp
qed

text \<open>
  C5, as stated, gives \<open>max_lag = ceil (window / period + 1) * 2\<close>; the code takes
  \<^verbatim>\<open>int(((window/period)+1) * 2)\<close>, which truncates.  With \<open>window = 90\<close> and
  \<open>period = 60\<close> the code scores the lags \<open>1..5\<close>, not \<open>1..6\<close>: on samples 15 seconds
  apart it keeps row 5 and gives row 6 the lag 5, although lag 6 has the smaller score.
\<close>

theorem max_lag_truncates_counterexample:
  "max_rows 90 60 = 5 \<and> \<lceil>real_of_int 90 / real_of_int 60 + 1\<rceil> * 2 = (6 :: int)
   \<and> dynamic_window series_15s (nat (max_rows 90 60)) 90
       = Inr [\<lparr>lr_label = 5, lr_point = series_15s ! 5, lr_lag = 5\<rparr>,
              \<lparr>lr_label = 6, lr_point = series_15s ! 6, lr_lag = 5\<rparr>]
   \<and> \<bar>p_time (series_15s ! 6) - p_time (series_15s ! (6 - 6)) - 90\<bar>
       < \<bar>p_time (series_15s ! 6) - p_time (series_15s ! (6 - 5)) - 90\<bar>"
proof -
  have m: "max_rows 90 60 = 5" by (simp add: max_rows_def py_int_def)
  have c: "\<lceil>real_of_int 90 / real_of_int 60 + 1\<rceil> * 2 = (6 :: int)" by (simp add: ceiling_eq_iff)
  have d: "dynamic_window series_15s 5 90
       = Inr [\<lparr>lr_label = 5, lr_point = series_15s ! 5, lr_lag = 5\<rparr>,
              \<lparr>lr_label = 6, lr_point = series_15s ! 6, lr_lag = 5\<rparr>]"
    by code_simp
  have s: "\<bar>p_time (series_15s ! 6) - p_time (series_15s ! (6 - 6)) - 90\<bar>
       < \<bar>p_time (series_15s ! 6) - p_time (series_15s ! (6 - 5)) - 90\<bar>"
    by (simp add: series_15s_def)
  show ?thesis using m c d s by simp
qed

text \<open>
  C5, amended.  With \<open>max_lag = \<lfloor>(window / period + 1) * 2\<rfloor>\<close> (which is the claimed
  \<open>ceil (window / period + 1) * 2\<close> when \<open>period\<close> divides \<open>window\<close>), \<^verbatim>\<open>dynamic_window\<close>
  keeps exactly the rows \<open>max_lag, ..., len - 1\<close>, and for each of them the lag it
  selects minimises \<open>\<bar>timestamp[row] - timestamp[row - i] - window\<bar>\<close> over
  \<open>i = 1..max_lag\<close> and is the smallest lag that does.
\<close>

theorem dynamic_window_lag_selection:
  assumes "0 \<le> window_p" and "0 < period_p"
    and "mr = nat (max_rows window_p period_p)"
    and "mr \<le> row" and "row < length df"
  shows "int mr = \<lfloor>(real_of_int window_p / real_of_int period_p + 1) * 2\<rfloor>
       \<and> (period_p dvd window_p
            \<longrightarrow> int mr = \<lceil>real_of_int window_p / real_of_int period_p + 1\<rceil> * 2)
       \<and> (\<exists>rows L. dynamic_window df mr window_p = Inr rows
            \<and> map lr_label rows = [mr..<length df]
            \<and> lr_lag (rows ! (row - mr)) = L
            \<and> 1 \<le> L \<and> L \<le> mr
            \<and> (\<forall>i. 1 \<le> i \<and> i \<le> mr \<longrightarrow>
                  \<bar>p_time (df ! row) - p_time (df ! (row - L)) - window_p\<bar>
                    \<le> \<bar>p_time (df ! row) - p_time (df ! (row - i)) - window_p\<bar>)
            \<and> (\<forall>i. 1 \<le> i \<and> i < L \<longrightarrow>
                  \<bar>p_time (df ! row) - p_time (df ! (row - L)) - window_p\<bar>
                    < \<bar>p_time (df ! row) - p_time (df ! (row - i)) - window_p\<bar>))"
proof -
  let ?sc = "\<lambda>i. \<bar>p_time (df ! row) - p_time (df ! (row - i)) - window_p\<bar>"
  have m2: "max_rows window_p period_p = (2 * window_p) div period_p + 2"
    by (rule max_rows_floor(2)[OF assms(1,2)])
  have "0 \<le> (2 * window_p) div period_p" using assms(1,2) by (simp add: pos_imp_zdiv_nonneg_iff)
  then have mr_pos: "2 \<le> max_rows window_p period_p" using m2 by simp
  then have imr: "int mr = max_rows window_p period_p" and mr1: "1 \<le> mr"
    using assms(3) by simp_all
  have c1: "int mr = \<lfloor>(real_of_int window_p / real_of_int period_p + 1) * 2\<rfloor>"
    using imr max_rows_floor(1)[OF assms(1,2)] by simp
  have c2: "period_p dvd window_p
            \<longrightarrow> int mr = \<lceil>real_of_int window_p / real_of_int period_p + 1\<rceil> * 2"
    using imr max_rows_dvd[OF assms(1,2)] by simp
  let ?rows = "map (\<lambda>row. \<lparr>lr_label = row, lr_point = df ! row,
                     lr_lag = the (idxmin (score_columns df mr window_p row))\<rparr>) [mr..<length df]"
  have dw: "dynamic_window df mr window_p = Inr ?rows"
    by (rule dynamic_window_rows[OF mr1])
  have lab: "map lr_label ?rows = [mr..<length df]"
    by (simp add: comp_def)
  have idx: "row - mr < length [mr..<length df]" using assms(4,5) by simp
  have nth: "[mr..<length df] ! (row - mr) = row" using assms(4,5) by simp
  have lag: "lr_lag (?rows ! (row - mr)) = the (idxmin (score_columns df mr window_p row))"
    using idx nth by simp
  let ?ss = "map ?sc [1..<Suc mr]"
  have ne: "?ss \<noteq> []" using mr1 by simp
  from idxmin_first_min[OF ne] obtain l where
    l: "idxmin (map Some ?ss) = Some l" "1 \<le> l" "l \<le> length ?ss"
       "\<forall>k<length ?ss. ?ss ! (l - 1) \<le> ?ss ! k" "\<forall>k<l - 1. ?ss ! (l - 1) < ?ss ! k"
    by blast
  have len: "length ?ss = mr" by (simp del: upt_Suc)
  have at: "?ss ! (i - 1) = ?sc i" if "1 \<le> i" "i \<le> mr" for i
  proof -
    have "1 + (i - 1) < Suc mr" using that by linarith
    then have "[1..<Suc mr] ! (i - 1) = 1 + (i - 1)" by (rule nth_upt)
    then have "[1..<Suc mr] ! (i - 1) = i" using that by simp
    moreover have "i - 1 < length [1..<Suc mr]" using that by (simp del: upt_Suc)
    ultimately show ?thesis by (simp del: upt_Suc)
  qed
  have lmr: "l \<le> mr" using l(3) unfolding len .
  have l4: "\<forall>k<mr. ?ss ! (l - 1) \<le> ?ss ! k" using l(4) unfolding len .
  have the_l: "the (idxmin (score_columns df mr window_p row)) = l"
    using l(1) score_columns_full[OF assms(4,5), of window_p] by simp
  have mn: "\<forall>i. 1 \<le> i \<and> i \<le> mr \<longrightarrow> ?sc l \<le> ?sc i"
  proof (intro allI impI)
    fix i assume i: "1 \<le> i \<and> i \<le> mr"
    then have i1: "1 \<le> i" and i2: "i \<le> mr" by simp_all
    from i have "i - 1 < mr" by linarith
    with l4 have "?ss ! (l - 1) \<le> ?ss ! (i - 1)" by blast
    then show "?sc l \<le> ?sc i" unfolding at[OF l(2) lmr] at[OF i1 i2] .
  qed
  have first: "\<forall>i. 1 \<le> i \<and> i < l \<longrightarrow> ?sc l < ?sc i"
  proof (intro allI impI)
    fix i assume i: "1 \<le> i \<and> i < l"
    then have i1: "1 \<le> i" and i2: "i \<le> mr" using lmr by simp_all
    from i have "i - 1 < l - 1" by linarith
    with l(5) have "?ss ! (l - 1) < ?ss ! (i - 1)" by blast
    then show "?sc l < ?sc i" unfolding at[OF l(2) lmr] at[OF i1 i2] .
  qed
  show ?thesis
    using c1 c2 dw lab lag the_l l(2) lmr mn first by blast
qed

theorem dynamic_window_lag_selection_witness:
  "nat (max_rows 60 60) = 4 \<and> (4 :: int) = \<lceil>real_of_int 60 / real_of_int 60 + 1\<rceil> * 2
   \<and> (\<exists>rows. dynamic_window series_6 4 60 = Inr rows \<and> map lr_label rows = [4, 5]
         \<and> lr_lag (rows ! 0) = 1)"
proof -
  have m: "nat (max_rows 60 60) = 4" by (simp add: max_rows_def py_int_def)
  have len: "length series_6 = 6" by (simp add: series_6_def)
  have u: "[4..<6] = [4, 5]" by (simp add: upt_rec)
  from dynamic_window_lag_selection[of 60 60 4 4 series_6] m len obtain rows L where
    r: "dynamic_window series_6 4 60 = Inr rows" "map lr_label rows = [4..<6]"
       "lr_lag (rows ! (4 - 4)) = L" "1 \<le> L"
       "\<forall>i. 1 \<le> i \<and> i < L \<longrightarrow>
           \<bar>p_time (series_6 ! 4) - p_time (series_6 ! (4 - L)) - 60\<bar>
             < \<bar>p_time (series_6 ! 4) - p_time (series_6 ! (4 - i)) - 60\<bar>"
       and c: "int 4 = \<lceil>real_of_int 60 / real_of_int 60 + 1\<rceil> * 2"
    by auto
  have "L = 1"
  proof (rule ccontr)
    assume "L \<noteq> 1"
    then have "1 \<le> (1::nat) \<and> 1 < L" using r(4) by simp
    with r(5) have "\<bar>p_time (series_6 ! 4) - p_time (series_6 ! (4 - L)) - 60\<bar>
             < \<bar>p_time (series_6 ! 4) - p_time (series_6 ! (4 - 1)) - 60\<bar>" by blast
    then show False by (simp add: series_6_def)
  qed
  then show ?thesis using m r(1,2,3) c u by auto
qed

lemma data_frame3_map:
  "data_frame3 (map f xs) (map g xs) (map h xs)
     = map (\<lambda>x. \<lparr>timestamp = f x, window = g x, twap = h x\<rparr>) xs"
  by (simp add: data_frame3_def pad_def zip_map_map zip_same_conv_map comp_def)

lemma np_power_not_nan [simp]: "\<not> isnan (np_power b x)"
  by (simp add: np_power_def Let_def)

lemma np_power_in_range:
  assumes "0 \<le> x" and "x \<le> 1023"
  shows "np_power (10001 / 10000) x = Fin ((10001 / 10000) powr x)"
proof -
  let ?y = "(10001 / 10000 :: real) powr x"
  have lo: "1 \<le> ?y" using assms(1) by (simp add: ge_one_powr_ge_zero)
  have "(2 :: real) powr (- 1075) < 1" by (simp add: powr_less_one)
  then have a: "\<not> ?y \<le> 2 powr (- 1075)" using lo by linarith
  have "?y \<le> 2 powr x" by (rule powr_mono2) (use assms in simp_all)
  also have "\<dots> \<le> 2 powr 1023" by (rule powr_mono) (use assms(2) in simp_all)
  also have "\<dots> = 2 ^ 1023" by simp
  also have "\<dots> < 2 ^ 1024 - 2 ^ 970" by simp
  finally have b: "\<not> 2 ^ 1024 - 2 ^ 970 \<le> ?y" by simp
  show ?thesis unfolding np_power_def Let_def using a b by (simp only: if_False)
qed

lemma two_le_power_inverse:
  assumes "0 < n"
  shows "(2 :: real) \<le> (1 + 1 / real n) ^ n"
proof -
  have "- 1 \<le> 1 / real n" by (rule order_trans[of _ 0]) simp_all
  from Bernoulli_inequality[OF this, of n] assms show ?thesis by simp
qed

lemma np_power_underflow: "np_power (10001 / 10000) (- 20000000) = Fin 0"
proof -
  define b :: real where "b = 10001 / 10000"
  define N :: nat where "N = 10000"
  define M :: nat where "M = 2000"
  define L :: nat where "L = 1075"
  have bN: "b = 1 + 1 / real N" by (simp add: b_def N_def)
  have bpos: "0 < b" by (simp add: b_def)
  have "2 \<le> b ^ N" unfolding bN by (rule two_le_power_inverse) (simp add: N_def)
  then have p1: "2 ^ M \<le> (b ^ N) ^ M" by (rule power_mono) simp
  have p2: "(2 :: real) ^ L \<le> 2 ^ M" by (rule power_increasing) (simp_all add: L_def M_def)
  have le: "2 ^ L \<le> b ^ (N * M)" unfolding power_mult by (rule order_trans[OF p2 p1])
  have "inverse (b ^ (N * M)) \<le> inverse (2 ^ L)"
    by (rule le_imp_inverse_le[OF le]) simp
  then have main: "b powr (- real (N * M)) \<le> 2 powr (- real L)"
    by (simp only: powr_minus powr_realpow[OF bpos] powr_realpow[of 2, OF zero_less_numeral])
  have e1: "(- 20000000 :: real) = - real (N * M)" by (simp add: N_def M_def)
  have e2: "(- 1075 :: real) = - real L" by (simp add: L_def)
  have "(10001 / 10000 :: real) powr (- 20000000) \<le> 2 powr (- 1075)"
    unfolding b_def[symmetric] e1 e2 by (rule main)
  then show ?thesis unfolding np_power_def Let_def by (simp only: if_True)
qed

lemma get_twap_univ3_rows:
  assumes "filtered_rows pc p = Inr rows" and "rows \<noteq> []"
  shows "get_twap_univ3 pc p =
     Inr (filter (\<lambda>s. fl_gt (twap s) (Fin 0))
            (map (\<lambda>r. \<lparr>timestamp = Fin (real_of_int (p_time (lr_point (dr_row r)))),
                     window = Fin (real_of_int (dr_dt r)),
                     twap = (if p_field (lr_point (dr_row (hd rows))) = ''tick_cumulative1''
                             then fl_div (Fin 1)
                                    (np_power (10001 / 10000) (dr_dp r / real_of_int (dr_dt r)))
                             else np_power (10001 / 10000) (dr_dp r / real_of_int (dr_dt r)))\<rparr>)
               rows))"
proof (cases "p_field (lr_point (dr_row (hd rows))) = ''tick_cumulative1''")
  case True
  show ?thesis
    unfolding get_twap_univ3_def assms(1)
    using assms(2) True
    by (simp add: list.case_eq_if Let_def data_frame3_map o_def)
next
  case False
  show ?thesis
    unfolding get_twap_univ3_def assms(1)
    using assms(2) False
    by (simp add: list.case_eq_if Let_def data_frame3_map o_def)
qed

lemma apply_rows_Inl:
  "apply_rows f is = Inl e \<Longrightarrow> \<exists>i\<in>set is. f i = Inl e"
  by (induction "is") (auto split: sum.splits)

lemma delta_window_Inl: "delta_window loc vals lookback = Inl e \<Longrightarrow> e = IndexError"
  by (auto simp: delta_window_def iloc_def Let_def split: if_splits sum.splits)

lemma filtered_rows_Inl:
  assumes "filtered_rows pc p = Inl e"
  shows "e \<in> {ZeroDivisionError, ValueError, IndexError}"
proof (cases "period_s p = 0")
  case True
  then show ?thesis using assms by (simp add: filtered_rows_def)
next
  case False
  show ?thesis
  proof (cases "dynamic_window pc (nat (max_rows (window_s p) (period_s p))) (window_s p)")
    case (Inl e')
    then have "e' = ValueError" by (auto simp: dynamic_window_def split: if_splits)
    then show ?thesis using assms False Inl by (simp add: filtered_rows_def Let_def)
  next
    case (Inr pc1)
    show ?thesis
    proof (cases "pc1 = []")
      case True
      then show ?thesis using assms False Inr by (simp add: filtered_rows_def Let_def)
    next
      case ne: False
      let ?lb = "map lr_lag pc1"
      let ?fv = "\<lambda>loc. delta_window loc (map (\<lambda>r. p_value (lr_point r)) pc1) ?lb"
      let ?ft = "\<lambda>loc. delta_window loc (map (\<lambda>r. p_time (lr_point r)) pc1) ?lb"
      from assms False Inr ne
      have "apply_rows ?fv [0..<length pc1] = Inl e \<or> apply_rows ?ft [0..<length pc1] = Inl e"
        by (auto simp: filtered_rows_def Let_def split: sum.splits)
      then have "e = IndexError"
      proof
        assume "apply_rows ?fv [0..<length pc1] = Inl e"
        then obtain i where "?fv i = Inl e" using apply_rows_Inl[of ?fv] by blast
        then show ?thesis by (rule delta_window_Inl)
      next
        assume "apply_rows ?ft [0..<length pc1] = Inl e"
        then obtain i where "?ft i = Inl e" using apply_rows_Inl[of ?ft] by blast
        then show ?thesis by (rule delta_window_Inl)
      qed
      then show ?thesis by simp
    qed
  qed
qed

lemma dynamic_window_short:
  assumes "1 \<le> mr" and "length df \<le> mr"
  shows "dynamic_window df mr w = Inr []"
  using dynamic_window_rows[OF assms(1), of df w] assms(2) by simp

lemma filtered_rows_short:
  assumes "period_s p \<noteq> 0" and "length pc \<le> nat (max_rows (window_s p) (period_s p))"
  shows "filtered_rows pc p = Inl ValueError"
proof (cases "1 \<le> nat (max_rows (window_s p) (period_s p))")
  case True
  show ?thesis
    using assms(1) dynamic_window_short[OF True assms(2)]
    by (simp add: filtered_rows_def Let_def)
next
  case False
  then have "dynamic_window pc (nat (max_rows (window_s p) (period_s p))) (window_s p)
               = Inl ValueError"
    by (simp add: dynamic_window_def)
  then show ?thesis using assms(1) by (simp add: filtered_rows_def Let_def)
qed

text \<open>
  C10, as stated, fails when no row has full lookback.  Three samples 60 seconds apart
  with \<open>max_lag = 4\<close>: \<^verbatim>\<open>dropna\<close> leaves a frame without rows, \<^verbatim>\<open>pc.apply\<close> on it gives a
  frame, and the assignment to \<^verbatim>\<open>pc['dp']\<close> raises \<^verbatim>\<open>ValueError\<close>; \<^verbatim>\<open>get_twap\<close> never
  reaches \<^verbatim>\<open>pc.loc[0, '_field']\<close>.
\<close>

theorem get_twap_univ3_short_series_counterexample:
  "dynamic_window series_3 (nat (max_rows (window_s params_60) (period_s params_60)))
       (window_s params_60) = Inr []
   \<and> get_twap_univ3 series_3 params_60 = Inl ValueError"
proof -
  have m: "nat (max_rows (window_s params_60) (period_s params_60)) = 4"
    by (simp add: max_rows_def py_int_def params_60_def)
  have d: "dynamic_window series_3 4 (window_s params_60) = Inr []" by code_simp
  have f: "filtered_rows series_3 params_60 = Inl ValueError" by code_simp
  show ?thesis using m d f by (simp add: get_twap_univ3_def)
qed

text \<open>
  C10, amended.  Whenever no row of the series passes the filters of \<^verbatim>\<open>get_twap\<close>
  (\<^verbatim>\<open>influx_metrics_univ3.py\<close>), it raises an exception and returns no frame; which one
  depends on where the rows are lost.  When the series has rows, but at most
  \<open>max_lag\<close> of them, so that no row has full lookback, it is \<^verbatim>\<open>ValueError\<close> at the
  assignment to \<^verbatim>\<open>pc['dp']\<close>; when rows with full lookback exist and the two filters on
  \<open>dt\<close> remove every one of them, it is \<^verbatim>\<open>KeyError\<close> at \<^verbatim>\<open>pc.loc[0, '_field']\<close>; in every
  other case it is \<^verbatim>\<open>ZeroDivisionError\<close> (\<open>period = 0\<close>), \<^verbatim>\<open>ValueError\<close> or the
  \<^verbatim>\<open>IndexError\<close> of \<^verbatim>\<open>delta_window\<close>.  Whenever \<^verbatim>\<open>get_twap\<close> returns a frame, at least
  one row has passed the filters on \<open>dt\<close>, and the frame has no more rows than have
  passed.
\<close>

theorem get_twap_univ3_no_rows:
  "(period_s p \<noteq> 0 \<and> pc \<noteq> [] \<and> length pc \<le> nat (max_rows (window_s p) (period_s p))
      \<longrightarrow> get_twap_univ3 pc p = Inl ValueError)
   \<and> (filtered_rows pc p = Inr [] \<longrightarrow> get_twap_univ3 pc p = Inl KeyError)
   \<and> ((\<forall>r rs. filtered_rows pc p \<noteq> Inr (r # rs))
      \<longrightarrow> (\<exists>e\<in>{ZeroDivisionError, ValueError, IndexError, KeyError}.
             get_twap_univ3 pc p = Inl e))
   \<and> (get_twap_univ3 pc p = Inr out
      \<longrightarrow> (\<exists>r rs. filtered_rows pc p = Inr (r # rs) \<and> length out \<le> length (r # rs)))"
proof -
  have a: "get_twap_univ3 pc p = Inl ValueError"
    if "period_s p \<noteq> 0 \<and> pc \<noteq> [] \<and> length pc \<le> nat (max_rows (window_s p) (period_s p))"
    using filtered_rows_short[of p pc] that by (simp add: get_twap_univ3_def)
  have d: "\<exists>e\<in>{ZeroDivisionError, ValueError, IndexError, KeyError}. get_twap_univ3 pc p = Inl e"
    if h: "\<forall>r rs. filtered_rows pc p \<noteq> Inr (r # rs)"
  proof (cases "filtered_rows pc p")
    case (Inl e)
    then have "get_twap_univ3 pc p = Inl e" by (simp add: get_twap_univ3_def)
    then show ?thesis using filtered_rows_Inl[OF Inl] by auto
  next
    case (Inr rows)
    then have "rows = []" using h by (cases rows) auto
    then show ?thesis using Inr by (simp add: get_twap_univ3_def)
  qed
  have b: "get_twap_univ3 pc p = Inl KeyError" if "filtered_rows pc p = Inr []"
    using that by (simp add: get_twap_univ3_def)
  have c: "\<exists>r rs. filtered_rows pc p = Inr (r # rs) \<and> length out \<le> length (r # rs)"
    if h: "get_twap_univ3 pc p = Inr out"
  proof (cases "filtered_rows pc p")
    case (Inl e)
    then show ?thesis using h by (simp add: get_twap_univ3_def)
  next
    case (Inr rows)
    show ?thesis
    proof (cases rows)
      case Nil
      then show ?thesis using h Inr by (simp add: get_twap_univ3_def)
    next
      case (Cons r rs)
      then have ne: "rows \<noteq> []" by simp
      let ?f = "\<lambda>s. fl_gt (twap s) (Fin 0)"
      from get_twap_univ3_rows[OF Inr ne] h obtain xs where
        o: "out = filter ?f xs" and l: "length xs = length rows"
        by auto
      have "length out \<le> length rows" unfolding o l[symmetric] by (rule length_filter_le)
      then show ?thesis using Inr Cons by simp
    qed
  qed
  show ?thesis using a b c d by blast
qed

theorem get_twap_univ3_no_rows_witness:
  "period_s params_60 \<noteq> 0 \<and> butlast series_5 \<noteq> []
   \<and> length (butlast series_5) \<le> nat (max_rows (window_s params_60) (period_s params_60))
   \<and> get_twap_univ3 (butlast series_5) params_60 = Inl ValueError
   \<and> filtered_rows series_5 params_60 = Inr []
   \<and> get_twap_univ3 series_5 params_60 = Inl KeyError
   \<and> filtered_rows series_15s params_60 = Inl IndexError
   \<and> (\<exists>e\<in>{ZeroDivisionError, ValueError, IndexError, KeyError}.
         get_twap_univ3 series_15s params_60 = Inl e)
   \<and> (\<exists>out r rs. get_twap_univ3 series_6 params_60 = Inr out
        \<and> filtered_rows series_6 params_60 = Inr (r # rs) \<and> length out \<le> length (r # rs))"
proof -
  have m: "nat (max_rows (window_s params_60) (period_s params_60)) = 4"
    by (simp add: max_rows_def py_int_def params_60_def)
  have l: "length (butlast series_5) = 4" by (simp add: series_5_def)
  have q: "period_s params_60 \<noteq> 0" by (simp add: params_60_def)
  have f: "filtered_rows series_5 params_60 = Inr []" by code_simp
  have i: "filtered_rows series_15s params_60 = Inl IndexError" by code_simp
  have f6: "filtered_rows series_6 params_60
     = Inr [\<lparr>dr_row = \<lparr>lr_label = 5, lr_point = series_6 ! 5, lr_lag = 1\<rparr>, dr_dp = 10, dr_dt = 60\<rparr>]"
    by code_simp
  obtain out where o: "get_twap_univ3 series_6 params_60 = Inr out"
    using get_twap_univ3_rows[OF f6] by simp
  have w1: "get_twap_univ3 (butlast series_5) params_60 = Inl ValueError"
    using get_twap_univ3_no_rows[of params_60 "butlast series_5" out] m l q
    by (simp add: series_5_def)
  have w2: "get_twap_univ3 series_5 params_60 = Inl KeyError"
    using get_twap_univ3_no_rows[of params_60 series_5 out] f by simp
  have w3: "\<exists>r rs. filtered_rows series_6 params_60 = Inr (r # rs) \<and> length out \<le> length (r # rs)"
    using get_twap_univ3_no_rows[of params_60 series_6 out] o by blast
  have n: "butlast series_5 \<noteq> []" by (simp add: series_5_def)
  have w4: "\<exists>e\<in>{ZeroDivisionError, ValueError, IndexError, KeyError}.
         get_twap_univ3 series_15s params_60 = Inl e"
    using get_twap_univ3_no_rows[of params_60 series_15s out] i by simp
  show ?thesis using m l q f i n w1 w2 w3 w4 o by auto
qed

text \<open>
  C6.  Six samples 60 seconds apart.  Row 4 has the four rows of history that
  \<open>max_lag = 4\<close> asks for, its lag is 1 and the time elapsed over that lag is 60, inside
  \<open>[50, 70]\<close>; the claim keeps it.  \<^verbatim>\<open>get_twap\<close> leaves it out and returns row 5 only:
  \<^verbatim>\<open>delta_window\<close> looks the lag up by position in the frame that \<^verbatim>\<open>dropna\<close> has
  shortened, where row 4 is at position 0, and position \<open>-1\<close> is the last row.
\<close>

theorem dynamic_twap_drops_valid_row:
  "dynamic_window series_6 (nat (max_rows 60 60)) 60
     = Inr [\<lparr>lr_label = 4, lr_point = series_6 ! 4, lr_lag = 1\<rparr>,
            \<lparr>lr_label = 5, lr_point = series_6 ! 5, lr_lag = 1\<rparr>]
   \<and> p_time (series_6 ! 4) - p_time (series_6 ! (4 - 1)) = 60
   \<and> get_twap_univ3 series_6 params_60
       = Inr [\<lparr>timestamp = Fin 300, window = Fin 60, twap = Fin ((10001 / 10000) powr (1 / 6))\<rparr>]"
proof -
  have m: "nat (max_rows 60 60) = 4" by (simp add: max_rows_def py_int_def)
  have d: "dynamic_window series_6 4 60
     = Inr [\<lparr>lr_label = 4, lr_point = series_6 ! 4, lr_lag = 1\<rparr>,
            \<lparr>lr_label = 5, lr_point = series_6 ! 5, lr_lag = 1\<rparr>]"
    by code_simp
  have e: "p_time (series_6 ! 4) - p_time (series_6 ! (4 - 1)) = 60" by (simp add: series_6_def)
  have f: "filtered_rows series_6 params_60
     = Inr [\<lparr>dr_row = \<lparr>lr_label = 5, lr_point = series_6 ! 5, lr_lag = 1\<rparr>, dr_dp = 10, dr_dt = 60\<rparr>]"
    by code_simp
  have g: "get_twap_univ3 series_6 params_60
       = Inr [\<lparr>timestamp = Fin 300, window = Fin 60, twap = Fin ((10001 / 10000) powr (1 / 6))\<rparr>]"
    using get_twap_univ3_rows[OF f] np_power_in_range[of "1 / 6"] by (simp add: series_6_def)
  show ?thesis using m d e g by simp
qed

text \<open>
  C7.  Seven samples with irregular spacing.  Row 6 survives the filters; its lag is 4,
  the value difference over that lag is 600 and the elapsed time 60, so the claim gives
  \<open>1.0001 ^ 10\<close>.  \<^verbatim>\<open>get_twap\<close> returns \<open>1.0001 ^ 12\<close>: at position 2 of the
  shortened frame \<^verbatim>\<open>delta_window\<close> reads position \<open>-2\<close>, which is row 5, and divides
  the difference to row 5 by the 50 seconds to row 5.
\<close>

theorem dynamic_twap_wraps_lookback:
  "dynamic_window series_jitter (nat (max_rows 60 60)) 60
     = Inr [\<lparr>lr_label = 4, lr_point = series_jitter ! 4, lr_lag = 3\<rparr>,
            \<lparr>lr_label = 5, lr_point = series_jitter ! 5, lr_lag = 4\<rparr>,
            \<lparr>lr_label = 6, lr_point = series_jitter ! 6, lr_lag = 4\<rparr>]
   \<and> (p_value (series_jitter ! 6) - p_value (series_jitter ! (6 - 4))) / real_of_int (p_time (series_jitter ! 6) - p_time (series_jitter ! (6 - 4))) = 10
   \<and> get_twap_univ3 series_jitter params_60
       = Inr [\<lparr>timestamp = Fin 160, window = Fin 50, twap = Fin ((10001 / 10000) powr 12)\<rparr>]
   \<and> (10001 / 10000 :: real) powr 12 \<noteq> (10001 / 10000) powr 10"
proof -
  have m: "nat (max_rows 60 60) = 4" by (simp add: max_rows_def py_int_def)
  have d: "dynamic_window series_jitter 4 60
     = Inr [\<lparr>lr_label = 4, lr_point = series_jitter ! 4, lr_lag = 3\<rparr>,
            \<lparr>lr_label = 5, lr_point = series_jitter ! 5, lr_lag = 4\<rparr>,
            \<lparr>lr_label = 6, lr_point = series_jitter ! 6, lr_lag = 4\<rparr>]"
    by code_simp
  have e: "(p_value (series_jitter ! 6) - p_value (series_jitter ! (6 - 4))) / real_of_int (p_time (series_jitter ! 6) - p_time (series_jitter ! (6 - 4))) = 10"
    by (simp add: series_jitter_def)
  have f: "filtered_rows series_jitter params_60
     = Inr [\<lparr>dr_row = \<lparr>lr_label = 6, lr_point = series_jitter ! 6, lr_lag = 4\<rparr>, dr_dp = 600, dr_dt = 50\<rparr>]"
    by code_simp
  have g: "get_twap_univ3 series_jitter params_60
       = Inr [\<lparr>timestamp = Fin 160, window = Fin 50, twap = Fin ((10001 / 10000) powr 12)\<rparr>]"
    using get_twap_univ3_rows[OF f] np_power_in_range[of 12] by (simp add: series_jitter_def)
  have n: "(10001 / 10000 :: real) powr 12 \<noteq> (10001 / 10000) powr 10"
    by (simp add: powr_inj)
  show ?thesis using m d e g n by simp
qed

section \<open>Properties of the standard normal distribution\<close>

text \<open>
  The series converges everywhere and its derivative is the density \<open>exp (- x\<^sup>2 / 2)\<close>;
  hence the distribution function is continuous and strictly increasing, takes the
  value \<open>1 / 2\<close> at \<open>0\<close> and every value of \<open>(0, 1)\<close>, and its inverse is strictly
  increasing on \<open>(0, 1)\<close>.
\<close>

lemma gauss_term_odd:
  "gauss_coeff n * y ^ n =
     (if even n then 0
      else (- 1) ^ ((n - 1) div 2) * y ^ (2 * ((n - 1) div 2) + 1)
             / (2 ^ ((n - 1) div 2) * fact ((n - 1) div 2) * real (2 * ((n - 1) div 2) + 1)))"
proof (cases "even n")
  case True
  then show ?thesis by (simp add: gauss_coeff_def)
next
  case False
  then have "2 * ((n - 1) div 2) + 1 = n" by presburger
  then show ?thesis using False by (simp add: gauss_coeff_def)
qed

lemma gauss_summable: "summable (\<lambda>n. gauss_coeff n * y ^ n)"
proof -
  let ?g = "\<lambda>k. (- 1) ^ k * y ^ (2 * k + 1) / (2 ^ k * fact k * real (2 * k + 1))"
  let ?b = "\<lambda>k. \<bar>y\<bar> * (inverse (fact k) * (y\<^sup>2 / 2) ^ k)"
  have sb: "summable ?b"
    by (rule summable_mult) (rule summable_exp)
  have le: "norm (?g k) \<le> ?b k" for k
  proof -
    have "norm (?g k) = \<bar>y\<bar> * ((y\<^sup>2) ^ k / (2 ^ k * fact k * real (2 * k + 1)))"
      by (simp add: abs_mult power_abs power_mult power2_eq_square)
    also have "\<dots> \<le> \<bar>y\<bar> * ((y\<^sup>2) ^ k / (2 ^ k * fact k))"
    proof -
      have "(y\<^sup>2) ^ k / (2 ^ k * fact k * real (2 * k + 1)) \<le> (y\<^sup>2) ^ k / (2 ^ k * fact k)"
      proof (rule frac_le)
        show "0 \<le> (y\<^sup>2) ^ k" by simp
        show "(y\<^sup>2) ^ k \<le> (y\<^sup>2) ^ k" by simp
        show "0 < (2::real) ^ k * fact k" by simp
        have "(2::real) ^ k * fact k * 1 \<le> 2 ^ k * fact k * real (2 * k + 1)"
          by (rule mult_left_mono) simp_all
        then show "(2::real) ^ k * fact k \<le> 2 ^ k * fact k * real (2 * k + 1)" by simp
      qed
      then show ?thesis by (rule mult_left_mono) simp
    qed
    also have "\<dots> = ?b k"
      by (simp add: field_simps)
    finally show ?thesis .
  qed
  have "summable ?g"
    by (rule summable_comparison_test[OF _ sb]) (use le in blast)
  then have "?g sums suminf ?g" by (rule summable_sums)
  then have "(\<lambda>n. if even n then 0 else ?g ((n - 1) div 2)) sums suminf ?g"
    by (rule sums_if')
  then have "summable (\<lambda>n. if even n then 0 else ?g ((n - 1) div 2))"
    by (rule sums_summable)
  then show ?thesis
    by (subst gauss_term_odd) 
qed

lemma gauss_diffs_term:
  "diffs gauss_coeff n * x ^ n =
     (if even n then (- (x\<^sup>2) / 2) ^ (n div 2) /\<^sub>R fact (n div 2) else 0)"
proof (cases "even n")
  case False
  then show ?thesis by (simp add: diffs_def gauss_coeff_def)
next
  case True
  then obtain k where n: "n = 2 * k" by (auto elim: evenE)
  have "diffs gauss_coeff n = (- 1) ^ k / (2 ^ k * fact k)"
    by (simp add: diffs_def gauss_coeff_def n)
  moreover have "x ^ n = (x\<^sup>2) ^ k" by (simp add: n power_mult)
  ultimately have "diffs gauss_coeff n * x ^ n = (- 1) ^ k * (x\<^sup>2) ^ k / (2 ^ k * fact k)"
    by simp
  also have "\<dots> = (- (x\<^sup>2) / 2) ^ k / fact k"
  proof -
    have "(- (x\<^sup>2) / 2) ^ k = ((- 1) * (x\<^sup>2) / 2) ^ k"
      by (simp only: mult_minus1)
    also have "\<dots> = (- 1) ^ k * (x\<^sup>2) ^ k / 2 ^ k"
      by (simp only: power_divide power_mult_distrib)
    finally have "(- (x\<^sup>2) / 2) ^ k = (- 1) ^ k * (x\<^sup>2) ^ k / 2 ^ k" .
    then show ?thesis by (simp only: divide_divide_eq_left)
  qed
  finally have e: "diffs gauss_coeff n * x ^ n = (- (x\<^sup>2) / 2) ^ k / fact k" .
  have "(- (x\<^sup>2) / 2) ^ k /\<^sub>R fact k = (- (x\<^sup>2) / 2) ^ k / fact k"
    by (simp only: real_scaleR_def divide_inverse mult.commute)
  then show ?thesis using True e by (simp only: n nonzero_mult_div_cancel_left if_True)
qed

lemma gauss_diffs_sums: "(\<lambda>n. diffs gauss_coeff n * x ^ n) sums exp (- (x\<^sup>2) / 2)"
proof -
  let ?h = "\<lambda>k. (- (x\<^sup>2) / 2) ^ k /\<^sub>R fact k"
  have h: "?h sums exp (- (x\<^sup>2) / 2)" by (rule exp_converges)
  have z: "(\<lambda>k::nat. 0::real) sums 0" by (rule sums_zero)
  have "(\<lambda>n. if even n then ?h (n div 2) else (\<lambda>k. 0) ((n - 1) div 2)) sums (0 + exp (- (x\<^sup>2) / 2))"
    by (rule sums_if[OF z h])
  then show ?thesis by (simp add: gauss_diffs_term)
qed

lemma DERIV_gauss_int: "DERIV gauss_int x :> exp (- (x\<^sup>2) / 2)"
proof -
  have "DERIV (\<lambda>x. \<Sum>n. gauss_coeff n * x ^ n) x :> (\<Sum>n. diffs gauss_coeff n * x ^ n)"
    by (rule termdiffs_strong_converges_everywhere) (rule gauss_summable)
  moreover have "(\<Sum>n. diffs gauss_coeff n * x ^ n) = exp (- (x\<^sup>2) / 2)"
    using gauss_diffs_sums by (rule sums_unique[symmetric])
  moreover have "gauss_int = (\<lambda>x. \<Sum>n. gauss_coeff n * x ^ n)"
    by (rule ext) (simp add: gauss_int_def)
  ultimately show ?thesis by simp
qed

lemma gauss_int_0: "gauss_int 0 = 0"
proof -
  have "gauss_coeff n * 0 ^ n = 0" for n
    by (cases n) (simp_all add: gauss_coeff_def)
  then have "(\<lambda>n. gauss_coeff n * 0 ^ n) = (\<lambda>n. 0)" by (intro ext)
  then show ?thesis unfolding gauss_int_def by simp
qed

lemma gauss_int_strict_mono:
  assumes "x < y"
  shows "gauss_int x < gauss_int y"
proof (rule DERIV_pos_imp_increasing[OF assms])
  fix u :: real
  have "DERIV gauss_int u :> exp (- (u\<^sup>2) / 2)" by (rule DERIV_gauss_int)
  moreover have "0 < exp (- (u\<^sup>2) / 2)" by simp
  ultimately show "\<exists>l. DERIV gauss_int u :> l \<and> 0 < l" by blast
qed

lemma gauss_int_isCont: "isCont gauss_int x"
  using DERIV_gauss_int by (rule DERIV_isCont)

lemma gauss_int_odd: "gauss_int (- x) = - gauss_int x"
proof -
  have "gauss_coeff n * (- x) ^ n = - (gauss_coeff n * x ^ n)" for n
    by (cases "even n") (simp_all add: gauss_coeff_def)
  then have "gauss_int (- x) = (\<Sum>n. - (gauss_coeff n * x ^ n))"
    by (simp add: gauss_int_def)
  also have "\<dots> = - (\<Sum>n. gauss_coeff n * x ^ n)"
    by (rule suminf_minus) (rule gauss_summable)
  finally show ?thesis by (simp add: gauss_int_def)
qed

lemma gauss_int_bounded: "gauss_int x \<le> 2 * exp (1 / 2)"
proof (cases "0 \<le> x")
  case False
  then have "gauss_int x < gauss_int 0" by (intro gauss_int_strict_mono) simp
  then show ?thesis using gauss_int_0 by (simp add: less_imp_le order_trans[of _ 0])
next
  case True
  let ?H = "\<lambda>u. gauss_int u + 2 * exp ((1 - u) / 2)"
  have d: "\<exists>l. DERIV ?H u :> l \<and> l \<le> 0" for u
  proof -
    have "DERIV ?H u :> exp (- (u\<^sup>2) / 2) + 2 * (exp ((1 - u) / 2) * (- 1 / 2))"
      by (auto intro!: derivative_eq_intros DERIV_gauss_int)
    moreover have "exp (- (u\<^sup>2) / 2) \<le> exp ((1 - u) / 2)"
    proof -
      have "0 \<le> (u - 1 / 2)\<^sup>2 + 3 / 4" by simp
      then have "0 \<le> u\<^sup>2 - u + 1" by (simp add: power2_eq_square algebra_simps)
      then have "- (u\<^sup>2) / 2 \<le> (1 - u) / 2" by simp
      then show ?thesis by simp
    qed
    ultimately show ?thesis by (intro exI conjI) (assumption, simp)
  qed
  have "?H x \<le> ?H 0"
    by (rule DERIV_nonpos_imp_nonincreasing[OF True]) (use d in blast)
  then have "gauss_int x + 2 * exp ((1 - x) / 2) \<le> 2 * exp (1 / 2)"
    by (simp add: gauss_int_0)
  moreover have "0 \<le> 2 * exp ((1 - x) / 2)" by simp
  ultimately show ?thesis by linarith
qed


lemma gauss_int_bdd: "bdd_above (range gauss_int)"
  by (rule bdd_aboveI[of _ "2 * exp (1 / 2)"]) (auto simp: gauss_int_bounded)

lemma gauss_int_less_half_mass: "gauss_int x < gauss_half_mass"
proof -
  have "gauss_int x < gauss_int (x + 1)" by (rule gauss_int_strict_mono) simp
  also have "gauss_int (x + 1) \<le> gauss_half_mass"
    unfolding gauss_half_mass_def by (rule cSup_upper[OF _ gauss_int_bdd]) simp
  finally show ?thesis .
qed

lemma gauss_half_mass_pos: "0 < gauss_half_mass"
  using gauss_int_less_half_mass[of 0] by (simp add: gauss_int_0)





lemma norm_cdf_range: "0 < norm_cdf x \<and> norm_cdf x < 1"
proof -
  have a: "gauss_int x < gauss_half_mass" by (rule gauss_int_less_half_mass)
  have "gauss_int (- x) < gauss_half_mass" by (rule gauss_int_less_half_mass)
  then have b: "- gauss_half_mass < gauss_int x" by (simp add: gauss_int_odd)
  have "gauss_int x / (2 * gauss_half_mass) < 1 / 2"
    using a gauss_half_mass_pos by (simp add: field_simps)
  moreover have "- (1 / 2) < gauss_int x / (2 * gauss_half_mass)"
    using b gauss_half_mass_pos by (simp add: field_simps)
  ultimately show ?thesis by (simp add: norm_cdf_def)
qed

lemma norm_cdf_isCont: "isCont norm_cdf x"
proof -
  have "isCont (\<lambda>x. 1 / 2 + gauss_int x / (2 * gauss_half_mass)) x"
    by (intro continuous_intros gauss_int_isCont) (use gauss_half_mass_pos in simp)
  moreover have "norm_cdf = (\<lambda>x. 1 / 2 + gauss_int x / (2 * gauss_half_mass))"
    by (rule ext) (simp add: norm_cdf_def)
  ultimately show ?thesis by simp
qed






section \<open>Monotonicity of the risk grid\<close>








section \<open>Further properties\<close>

lemma apply_rows_Inr:
  "apply_rows f is = Inr ys \<Longrightarrow>
     length ys = length is \<and> (\<forall>k<length is. f (is ! k) = Inr (ys ! k))"
proof (induction "is" arbitrary: ys)
  case Nil
  then show ?case by simp
next
  case (Cons i "is")
  from Cons.prems obtain y ys' where
    y: "f i = Inr y" and r: "apply_rows f is = Inr ys'" and ys: "ys = y # ys'"
    by (auto split: sum.splits)
  from Cons.IH[OF r] have "length ys' = length is" "\<forall>k<length is. f (is ! k) = Inr (ys' ! k)"
    by simp_all
  then show ?case using y ys by (auto simp: nth_Cons split: nat.splits)
qed

lemma delta_window_no_wrap:
  assumes "loc < length vals" and "lookback ! loc \<le> loc"
  shows "delta_window loc vals lookback = Inr (vals ! loc - vals ! (loc - lookback ! loc))"
proof -
  let ?lb = "lookback ! loc"
  have "0 \<le> int loc - int ?lb" "int loc - int ?lb < int (length vals)"
    using assms by simp_all
  moreover have "nat (int loc - int ?lb) = loc - ?lb" using assms(2) by simp
  ultimately show ?thesis by (simp add: delta_window_def iloc_def Let_def)
qed

text \<open>
  A row that \<^verbatim>\<open>get_twap\<close> of \<^verbatim>\<open>influx_metrics_univ3.py\<close> keeps, and that lies at least
  its lag behind the first row with full lookback (\<open>max_lag + lag \<le> row\<close>), has
  \<open>dp = value[row] - value[row - lag]\<close> and \<open>dt = timestamp[row] - timestamp[row - lag]\<close>
  with \<open>0 < dt\<close> inside \<open>[window - tolerance, window + tolerance]\<close>.  The frame returned
  holds, for the kept rows, \<^verbatim>\<open>np.power(1.0001, dp / dt)\<close>, inverted for all rows when the
  first kept row's field is \<^verbatim>\<open>tick_cumulative1\<close>, and of these the samples with
  \<open>twap > 0\<close>.
\<close>

theorem dynamic_twap_row_without_wrap:
  assumes "filtered_rows pc p = Inr rows" and "r \<in> set rows"
    and "nat (max_rows (window_s p) (period_s p)) + lr_lag (dr_row r) \<le> lr_label (dr_row r)"
  shows "dr_dp r = p_value (pc ! lr_label (dr_row r))
                    - p_value (pc ! (lr_label (dr_row r) - lr_lag (dr_row r)))
       \<and> dr_dt r = p_time (pc ! lr_label (dr_row r))
                    - p_time (pc ! (lr_label (dr_row r) - lr_lag (dr_row r)))
       \<and> 0 < dr_dt r
       \<and> window_s p - tolerance_s p \<le> dr_dt r \<and> dr_dt r \<le> window_s p + tolerance_s p
       \<and> get_twap_univ3 pc p =
           Inr (filter (\<lambda>s. fl_gt (twap s) (Fin 0))
                  (map (\<lambda>r. \<lparr>timestamp = Fin (real_of_int (p_time (lr_point (dr_row r)))),
                           window = Fin (real_of_int (dr_dt r)),
                           twap = (if p_field (lr_point (dr_row (hd rows))) = ''tick_cumulative1''
                                   then fl_div (Fin 1)
                                          (np_power (10001 / 10000) (dr_dp r / real_of_int (dr_dt r)))
                                   else np_power (10001 / 10000) (dr_dp r / real_of_int (dr_dt r)))\<rparr>)
                     rows))"
proof -
  let ?mr = "nat (max_rows (window_s p) (period_s p))"
  let ?w = "window_s p"
  from assms(1) obtain pc1 where dw: "dynamic_window pc ?mr ?w = Inr pc1"
    by (auto simp: filtered_rows_def Let_def split: if_splits sum.splits)
  then have mr1: "1 \<le> ?mr" by (auto simp: dynamic_window_def split: if_splits)
  have pc1: "pc1 = map (\<lambda>row. \<lparr>lr_label = row, lr_point = pc ! row,
                     lr_lag = the (idxmin (score_columns pc ?mr ?w row))\<rparr>) [?mr..<length pc]"
    using dw dynamic_window_rows[OF mr1, of pc ?w] by simp
  let ?lookback = "map lr_lag pc1"
  let ?vals = "map (\<lambda>r. p_value (lr_point r)) pc1"
  let ?tms = "map (\<lambda>r. p_time (lr_point r)) pc1"
  from assms(1) dw obtain dps dts where
    dps: "apply_rows (\<lambda>loc. delta_window loc ?vals ?lookback) [0..<length pc1] = Inr dps"
    and dts: "apply_rows (\<lambda>loc. delta_window loc ?tms ?lookback) [0..<length pc1] = Inr dts"
    and rows: "rows = filter (\<lambda>r. dr_dt r \<le> ?w + tolerance_s p \<and> ?w - tolerance_s p \<le> dr_dt r)
                 (filter (\<lambda>r. 0 < dr_dt r)
                    (map (\<lambda>(r, dp, dt). \<lparr>dr_row = r, dr_dp = dp, dr_dt = dt\<rparr>)
                       (zip pc1 (zip dps dts))))"
    by (auto simp: filtered_rows_def Let_def split: if_splits sum.splits)
  from apply_rows_Inr[OF dps] have ldp: "length dps = length pc1"
    and dpk: "\<forall>k<length pc1. delta_window k ?vals ?lookback = Inr (dps ! k)" by simp_all
  from apply_rows_Inr[OF dts] have ldt: "length dts = length pc1"
    and dtk: "\<forall>k<length pc1. delta_window k ?tms ?lookback = Inr (dts ! k)" by simp_all
  from assms(2) rows have flt: "0 < dr_dt r" "dr_dt r \<le> ?w + tolerance_s p" "?w - tolerance_s p \<le> dr_dt r"
    and mem: "r \<in> set (map (\<lambda>(r, dp, dt). \<lparr>dr_row = r, dr_dp = dp, dr_dt = dt\<rparr>)
                       (zip pc1 (zip dps dts)))"
    by auto
  from mem obtain loc where loc: "loc < length pc1"
    and r: "r = \<lparr>dr_row = pc1 ! loc, dr_dp = dps ! loc, dr_dt = dts ! loc\<rparr>"
    using ldp ldt by (auto simp: in_set_conv_nth)
  have ptk: "lr_point (pc1 ! k) = pc ! (?mr + k)" and labk: "lr_label (pc1 ! k) = ?mr + k"
    if "k < length pc1" for k
    using that by (simp_all add: pc1)
  have lab: "lr_label (pc1 ! loc) = ?mr + loc" and pt: "lr_point (pc1 ! loc) = pc ! (?mr + loc)"
    using loc ptk labk by simp_all
  have lag: "?lookback ! loc = lr_lag (dr_row r)" using loc r by simp
  have le: "?lookback ! loc \<le> loc" using assms(3) lab r lag by simp
  have bk: "loc - ?lookback ! loc < length pc1" using loc by simp
  have "?mr + (loc - ?lookback ! loc) = ?mr + loc - ?lookback ! loc" using le by simp
  then have ptb: "lr_point (pc1 ! (loc - ?lookback ! loc)) = pc ! (?mr + loc - ?lookback ! loc)"
    using ptk[OF bk] by simp
  have "delta_window loc ?vals ?lookback = Inr (?vals ! loc - ?vals ! (loc - ?lookback ! loc))"
    by (rule delta_window_no_wrap) (use loc le in simp_all)
  with dpk loc have dp: "dps ! loc = ?vals ! loc - ?vals ! (loc - ?lookback ! loc)" by simp
  have "delta_window loc ?tms ?lookback = Inr (?tms ! loc - ?tms ! (loc - ?lookback ! loc))"
    by (rule delta_window_no_wrap) (use loc le in simp_all)
  with dtk loc have dt: "dts ! loc = ?tms ! loc - ?tms ! (loc - ?lookback ! loc)" by simp
  have a: "dr_dp r = p_value (pc ! (?mr + loc)) - p_value (pc ! (?mr + loc - ?lookback ! loc))"
    using dp loc bk pt ptb r by (simp del: length_map)
  have b: "dr_dt r = p_time (pc ! (?mr + loc)) - p_time (pc ! (?mr + loc - ?lookback ! loc))"
    using dt loc bk pt ptb r by (simp del: length_map)
  have l: "lr_label (dr_row r) = ?mr + loc" using lab r by simp
  have ne: "rows \<noteq> []" using assms(2) by auto
  have abc: "dr_dp r = p_value (pc ! lr_label (dr_row r))
                    - p_value (pc ! (lr_label (dr_row r) - lr_lag (dr_row r)))
       \<and> dr_dt r = p_time (pc ! lr_label (dr_row r))
                    - p_time (pc ! (lr_label (dr_row r) - lr_lag (dr_row r)))
       \<and> 0 < dr_dt r
       \<and> window_s p - tolerance_s p \<le> dr_dt r \<and> dr_dt r \<le> window_s p + tolerance_s p"
    using a b flt unfolding l lag[symmetric] by simp
  show ?thesis using abc get_twap_univ3_rows[OF assms(1) ne] by blast
qed

theorem dynamic_twap_row_without_wrap_witness:
  "filtered_rows series_6 params_60
     = Inr [\<lparr>dr_row = \<lparr>lr_label = 5, lr_point = series_6 ! 5, lr_lag = 1\<rparr>,
             dr_dp = 10, dr_dt = 60\<rparr>]
   \<and> (10 :: real) = p_value (series_6 ! 5) - p_value (series_6 ! (5 - 1))
   \<and> (60 :: int) = p_time (series_6 ! 5) - p_time (series_6 ! (5 - 1))
   \<and> get_twap_univ3 series_6 params_60
       = Inr [\<lparr>timestamp = Fin 300, window = Fin 60,
               twap = Fin ((10001 / 10000) powr (1 / 6))\<rparr>]"
proof -
  let ?r = "\<lparr>dr_row = \<lparr>lr_label = 5, lr_point = series_6 ! 5, lr_lag = 1\<rparr>,
             dr_dp = 10, dr_dt = 60\<rparr>"
  have f: "filtered_rows series_6 params_60 = Inr [?r]" by code_simp
  have m: "nat (max_rows (window_s params_60) (period_s params_60)) + lr_lag (dr_row ?r)
             \<le> lr_label (dr_row ?r)"
    by (simp add: params_60_def max_rows_def py_int_def)
  have e: "np_power (10001 / 10000) (1 / 6) = Fin ((10001 / 10000) powr (1 / 6))"
    by (rule np_power_in_range) simp_all
  from dynamic_twap_row_without_wrap[OF f _ m] show ?thesis using f e by (simp add: series_6_def)
qed

text \<open>
  For any spacing of the samples, the rate of \<^verbatim>\<open>get_twap\<close> of \<^verbatim>\<open>influx_metrics.py\<close> at
  row \<open>i\<close> is undefined before row \<open>window - 1\<close>, and from there on it is the
  difference of the values \<open>window - 1\<close> rows apart over the time between these two
  rows.
\<close>

theorem fixed_window_rate_any_spacing:
  assumes "1 \<le> w" and "i < length pc"
  shows "twap_rates pc w ! i =
           (if w \<le> i + 1
            then fl_div (Fin (p_value (pc ! i) - p_value (pc ! (i - (w - 1)))))
                   (Fin (real_of_int (p_time (pc ! i) - p_time (pc ! (i - (w - 1))))))
            else NaN)"
proof -
  have k: "i + 1 - w = i - (w - 1)" using assms(1) by simp
  have d: "real_of_int (p_time (pc ! i)) - real_of_int (p_time (pc ! (i - (w - 1))))
             = real_of_int (p_time (pc ! i) - p_time (pc ! (i - (w - 1))))"
    by simp
  show ?thesis using twap_rates_nth[OF assms] unfolding k d .
qed

theorem fixed_window_rate_any_spacing_witness:
  "twap_rates uniform_series 3 ! 1 = NaN \<and> twap_rates uniform_series 3 ! 3 = Fin 2"
  using fixed_window_rate_any_spacing[of 3 1 uniform_series] fixed_window_rate_any_spacing[of 3 3 uniform_series]
  by (simp add: uniform_series_def)

text \<open>
  With fewer than two TWAP samples there is no log-return: \<^verbatim>\<open>get_stat\<close> returns a
  record whose \<open>mu\<close>, \<open>sigSqrd\<close> and VaR cells are all \<open>NaN\<close>.
\<close>

theorem get_stat_short_sample:
  assumes "length sample \<le> 1"
  shows "mu (get_stat ts sample t alphas ns) = NaN
       \<and> sigSqrd (get_stat ts sample t alphas ns) = NaN
       \<and> (\<forall>c\<in>set (var_cells (get_stat ts sample t alphas ns)). snd c = NaN)"
proof -
  have "[1..<length sample] = []" using assms by simp
  then have e: "log_returns sample = []" by (simp add: log_returns_def)
  have m: "np_mean [] = NaN" by (simp add: np_mean_def fl_sum_def)
  have v: "np_var [] = NaN" by (simp add: np_var_def m)
  have mu: "mu (get_stat ts sample t alphas ns) = NaN"
    by (simp add: get_stat_def e m Let_def)
  have ss: "sigSqrd (get_stat ts sample t alphas ns) = NaN"
    by (simp add: get_stat_def e v Let_def)
  have "snd c = NaN" if "c \<in> set (var_cells (get_stat ts sample t alphas ns))" for c
  proof -
    from that obtain k where
      "c \<in> set (zip (map (\<lambda>alpha. (alpha, k)) alphas) (calc_vars NaN NaN t k alphas))"
      by (auto simp: get_stat_def e m v Let_def)
    then have "snd c \<in> set (calc_vars NaN NaN t k alphas)"
      using set_zip_rightD[of "fst c" "snd c"] by simp
    then show ?thesis using calc_vars_NaN by blast
  qed
  then show ?thesis using mu ss by blast
qed

theorem get_stat_short_sample_witness:
  "get_stat 0 [] 60 [Fin (1 / 20)] [144]
     = \<lparr>rs_timestamp = 0, mu = NaN, sigSqrd = NaN, var_cells = [((Fin (1 / 20), 144), NaN)]\<rparr>"
proof -
  from get_stat_short_sample[of "[]" 0 60 "[Fin (1 / 20)]" "[144]"]
  have "mu (get_stat 0 [] 60 [Fin (1 / 20)] [144]) = NaN"
    "sigSqrd (get_stat 0 [] 60 [Fin (1 / 20)] [144]) = NaN"
    "\<forall>c\<in>set (var_cells (get_stat 0 [] 60 [Fin (1 / 20)] [144])). snd c = NaN"
    by simp_all
  moreover have "map fst (var_cells (get_stat 0 [] 60 [Fin (1 / 20)] [144])) = [(Fin (1 / 20), 144)]"
    by (simp add: get_stat_def Let_def calc_vars_def)
  moreover have "rs_timestamp (get_stat 0 [] 60 [Fin (1 / 20)] [144]) = 0"
    by (simp add: get_stat_def Let_def)
  ultimately show ?thesis
    by (cases "get_stat 0 [] 60 [Fin (1 / 20)] [144]")
       (auto simp: map_eq_Cons_conv)
qed

text \<open>
  \<^verbatim>\<open>get_twap\<close> of \<^verbatim>\<open>influx_metrics_univ3.py\<close> can return a frame without rows.  On six
  samples whose accumulator falls by \<open>1.2 * 10\<^sup>9\<close> per minute, row 5 passes the filters
  on \<open>dt\<close> with \<open>dp / dt = - 2 * 10\<^sup>7\<close>; \<^verbatim>\<open>np.power\<close> underflows to \<open>0.0\<close>, and the filter
  \<open>twap > 0\<close> removes the only sample.
\<close>

theorem get_twap_univ3_empty_frame:
  "filtered_rows series_steep params_60
     = Inr [\<lparr>dr_row = \<lparr>lr_label = 5, lr_point = series_steep ! 5, lr_lag = 1\<rparr>,
             dr_dp = - 1200000000, dr_dt = 60\<rparr>]
   \<and> get_twap_univ3 series_steep params_60 = Inr []"
proof -
  have f: "filtered_rows series_steep params_60
     = Inr [\<lparr>dr_row = \<lparr>lr_label = 5, lr_point = series_steep ! 5, lr_lag = 1\<rparr>,
             dr_dp = - 1200000000, dr_dt = 60\<rparr>]"
    by code_simp
  have "get_twap_univ3 series_steep params_60 = Inr []"
    using get_twap_univ3_rows[OF f] np_power_underflow by (simp add: series_steep_def)
  then show ?thesis using f by simp
qed

end
